(* ===== verification/Prelude.thy ===== *)
theory Prelude
  imports Main "HOL-Library.Word" "HOL-Library.Sublist" "HOL-Library.While_Combinator"
begin

text \<open>
  Shared vocabulary of the development: the JavaScript values that appear in the hooks'
  dependency arrays, the integer conversion that the timer facility applies to a delay
  (WebIDL \<open>long\<close>, i.e. ECMAScript \<open>ToInt32\<close>), and the case canonicalisation that
  an ECMAScript regular expression with the \<open>i\<close> flag applies to characters.
  The collection \<open>js_simps\<close> gathers the rewrite rules that evaluate these on
  concrete inputs.
\<close>

named_theorems js_simps "rules evaluating the JavaScript value model"

type_synonym ms = nat
type_synonym handle = nat

section \<open>JavaScript values in dependency arrays\<close>

text \<open>
  A dependency array is an \<open>any[]\<close>. Its elements are compared with \<open>Object.is\<close>:
  functions by identity (\<open>'f\<close> is a type of function identities), numbers by value
  (integral numbers only; \<open>NaN\<close> and \<open>-0\<close> are not modelled), other values by
  whatever identity \<open>'v\<close> has. \<open>Object.is\<close> is then HOL equality.
\<close>

datatype ('f, 'v) jsval = JFun 'f | JNum int | JVal 'v

section \<open>Lists\<close>

lemma filter_absorb:
  "(\<And>x. x \<in> set xs \<Longrightarrow> P x \<Longrightarrow> Q x) \<Longrightarrow> filter P (filter Q xs) = filter P xs"
  by (induction xs) auto

lemma length_le_1_member:
  "length xs \<le> 1 \<Longrightarrow> x \<in> set xs \<Longrightarrow> xs = [x]"
  by (cases xs) auto

section \<open>ECMAScript ToInt32\<close>

text \<open>
  \<open>ToInt32\<close> of an integral number: reduce modulo \<open>2^32\<close> and read the result as a
  two's complement 32-bit value. This is exactly \<open>sint\<close> of the 32-bit word.
\<close>

definition to_int32 :: "int \<Rightarrow> int" where
  "to_int32 x = sint (word_of_int x :: 32 word)"

lemma to_int32_mod [js_simps]:
  "to_int32 x = (x + 2147483648) mod 4294967296 - 2147483648"
  using int_word_sint [where x = x, where 'a = 32] by (simp add: to_int32_def)

lemma to_int32_range:
  "- 2147483648 \<le> to_int32 x \<and> to_int32 x < 2147483648"
proof -
  have "0 \<le> (x + 2147483648) mod (4294967296::int)"
    and "(x + 2147483648) mod (4294967296::int) < 4294967296"
    by simp_all
  then show ?thesis unfolding to_int32_mod by linarith
qed

lemma to_int32_id:
  assumes "- 2147483648 \<le> x" and "x < 2147483648"
  shows "to_int32 x = x"
proof -
  from assms have "(x + 2147483648) mod 4294967296 = x + (2147483648::int)"
    by (intro mod_pos_pos_trivial) linarith+
  then show ?thesis unfolding to_int32_mod by linarith
qed

lemma to_int32_periodic:
  "to_int32 (x + 4294967296 * k) = to_int32 x"
proof -
  have "(x + 4294967296 * k + 2147483648) mod 4294967296
      = (x + 2147483648 + k * 4294967296) mod (4294967296 :: int)"
    by (simp only: ac_simps)
  also have "\<dots> = (x + 2147483648) mod 4294967296"
    by (rule mod_mult_self1)
  finally show ?thesis by (simp only: to_int32_mod)
qed

section \<open>Case canonicalisation of the \<open>i\<close> flag\<close>

text \<open>
  Without the \<open>u\<close> flag, \<open>Canonicalize(ch)\<close> upper-cases \<open>ch\<close> but keeps every
  character whose upper case would leave or enter the ASCII range unchanged. On the
  8-bit characters of HOL this is: \<open>a\<close>..\<open>z\<close> map to \<open>A\<close>..\<open>Z\<close>, everything else is
  left alone. Folding of non-ASCII letters (\<open>\<acute>e\<close> to \<open>\<acute>E\<close>) is not modelled; it
  cannot change whether an ASCII pattern matches.
\<close>

definition js_canon :: "char \<Rightarrow> char" where
  "js_canon c =
     (let n = (of_char c :: nat) in if 97 \<le> n \<and> n \<le> 122 then char_of (n - 32) else c)"

lemma js_canon_other:
  "\<not> (97 \<le> (of_char c :: nat) \<and> (of_char c :: nat) \<le> 122) \<Longrightarrow> js_canon c = c"
  unfolding js_canon_def Let_def by (simp only: if_False)
lemma of_char_js_canon:
  "(of_char (js_canon c) :: nat) =
     (if 97 \<le> (of_char c :: nat) \<and> (of_char c :: nat) \<le> 122 then of_char c - 32 else of_char c)"
proof (cases "97 \<le> (of_char c :: nat) \<and> (of_char c :: nat) \<le> 122")
  case True
  then have "(of_char c :: nat) - 32 < 256" by linarith
  with True show ?thesis unfolding js_canon_def Let_def by (simp only: simp_thms if_True of_char_of mod_less)
next
  case False
  then show ?thesis using js_canon_other [OF False] by (simp only: if_False)
qed
lemma js_canon_idem [simp]: "js_canon (js_canon c) = js_canon c"
proof (cases "97 \<le> (of_char c :: nat) \<and> (of_char c :: nat) \<le> 122")
  case True
  then have "(of_char (js_canon c) :: nat) = of_char c - 32"
    unfolding of_char_js_canon by (simp only: simp_thms if_True)
  with True have "\<not> (97 \<le> (of_char (js_canon c) :: nat) \<and> (of_char (js_canon c) :: nat) \<le> 122)"
    by linarith
  then show ?thesis by (rule js_canon_other)
next
  case False
  then have "js_canon c = c" by (rule js_canon_other)
  then show ?thesis by (simp only:)
qed
lemma js_canon_comp_idem [simp]: "js_canon \<circ> js_canon = js_canon"
  by (simp add: fun_eq_iff)

end
