(* ===== verification/Timers.thy ===== *)
theory Timers
  imports Prelude
begin

text \<open>
  The host's timer facility that \<open>src/useDebounce.ts\<close> calls: \<open>setTimeout\<close>,
  \<open>clearTimeout\<close>, the passing of time and the event loop running the next due timer.
  It follows the HTML "timer initialization steps": the delay is converted to a WebIDL
  \<open>long\<close> (\<open>ToInt32\<close>), clamped below at 0, and handles are positive integers that
  are never reused. Time is counted in whole milliseconds. Timers are kept in the order they
  were scheduled; the event loop runs the first of those with the least due time, once it is
  due. The nesting-level clamp to 4 ms applies only to timers scheduled from timer callbacks
  and is not modelled.
\<close>

record 'a timer_host =
  now :: ms
  next_handle :: handle
  pending :: "(handle \<times> ms \<times> 'a) list"

definition timer_init :: "'a timer_host" where
  "timer_init = \<lparr>now = 0, next_handle = 1, pending = []\<rparr>"

text \<open>The timeout a delay argument really gets.\<close>

definition timeout_of :: "int \<Rightarrow> ms" where
  "timeout_of delay = nat (max 0 (to_int32 delay))"

definition setTimeout :: "'a \<Rightarrow> int \<Rightarrow> 'a timer_host \<Rightarrow> handle \<times> 'a timer_host" where
  "setTimeout cb delay t =
     (next_handle t,
      t\<lparr>next_handle := Suc (next_handle t),
        pending := pending t @ [(next_handle t, now t + timeout_of delay, cb)]\<rparr>)"

definition clearTimeout :: "handle \<Rightarrow> 'a timer_host \<Rightarrow> 'a timer_host" where
  "clearTimeout h t = t\<lparr>pending := filter (\<lambda>(h', _, _). h' \<noteq> h) (pending t)\<rparr>"

definition advance :: "'a timer_host \<Rightarrow> 'a timer_host" where
  "advance t = t\<lparr>now := Suc (now t)\<rparr>"

definition next_due :: "ms \<Rightarrow> (handle \<times> ms \<times> 'a) list \<Rightarrow> (handle \<times> ms \<times> 'a) option" where
  "next_due n ps = find (\<lambda>(h, d, c). d \<le> n \<and> list_all (\<lambda>(h', d', c'). d \<le> d') ps) ps"

text \<open>The event loop takes the next due timer off the list and hands back its callback.\<close>

definition run_next :: "'a timer_host \<Rightarrow> ('a \<times> 'a timer_host) option" where
  "run_next t =
     (case next_due (now t) (pending t) of
        None \<Rightarrow> None
      | Some (h, d, c) \<Rightarrow> Some (c, clearTimeout h t))"

text \<open>Handles are distinct and below the next handle to be issued.\<close>

definition timers_wf :: "'a timer_host \<Rightarrow> bool" where
  "timers_wf t \<longleftrightarrow>
     distinct (map fst (pending t)) \<and> list_all (\<lambda>(h, _, _). h < next_handle t) (pending t)"

section \<open>Operations\<close>

lemma timers_wf_init [simp]: "timers_wf timer_init"
  by (simp add: timers_wf_def timer_init_def)

lemma pending_setTimeout [simp]:
  "pending (snd (setTimeout cb delay t)) = pending t @ [(next_handle t, now t + timeout_of delay, cb)]"
  "now (snd (setTimeout cb delay t)) = now t"
  "next_handle (snd (setTimeout cb delay t)) = Suc (next_handle t)"
  "fst (setTimeout cb delay t) = next_handle t"
  by (simp_all add: setTimeout_def)

lemma pending_clearTimeout [simp]:
  "pending (clearTimeout h t) = filter (\<lambda>(h', _, _). h' \<noteq> h) (pending t)"
  "now (clearTimeout h t) = now t"
  "next_handle (clearTimeout h t) = next_handle t"
  by (simp_all add: clearTimeout_def)

lemma advance_fields [simp]:
  "pending (advance t) = pending t"
  "now (advance t) = Suc (now t)"
  "next_handle (advance t) = next_handle t"
  by (simp_all add: advance_def)

lemma setTimeout_wf:
  "timers_wf t \<Longrightarrow> timers_wf (snd (setTimeout cb delay t))"
  by (auto simp: timers_wf_def list_all_iff)

lemma clearTimeout_wf:
  "timers_wf t \<Longrightarrow> timers_wf (clearTimeout h t)"
  by (auto simp: timers_wf_def list_all_iff distinct_map_filter)

lemma advance_wf:
  "timers_wf t \<Longrightarrow> timers_wf (advance t)"
  by (simp add: timers_wf_def)

lemma next_due_Some:
  "next_due n ps = Some (h, d, c) \<Longrightarrow> (h, d, c) \<in> set ps \<and> d \<le> n"
  unfolding next_due_def by (auto simp: find_Some_iff in_set_conv_nth)

lemma next_due_None_iff:
  "next_due n ps = None \<longleftrightarrow> list_all (\<lambda>(h, d, c). n < d) ps"
proof
  assume none: "next_due n ps = None"
  show "list_all (\<lambda>(h, d, c). n < d) ps"
  proof (rule ccontr)
    assume "\<not> list_all (\<lambda>(h, d, c). n < d) ps"
    then obtain e where e: "e \<in> set ps" "fst (snd e) \<le> n"
      by (auto simp: list_all_iff)
    let ?m = "arg_min_on (\<lambda>e. fst (snd e)) (set ps)"
    have "set ps \<noteq> {}" using e(1) by auto
    then have m: "?m \<in> set ps" "\<not> (\<exists>x \<in> set ps. fst (snd x) < fst (snd ?m))"
      using arg_min_if_finite [of "set ps" "\<lambda>e. fst (snd e)"] by simp_all
    obtain h0 d0 c0 where hm: "?m = (h0, d0, c0)" by (cases ?m)
    from m e hm have "d0 \<le> n" by force
    moreover from m hm have "list_all (\<lambda>(h', d', c'). d0 \<le> d') ps"
      by (auto simp: list_all_iff not_less)
    ultimately have "\<exists>x \<in> set ps. (\<lambda>(h, d, c). d \<le> n \<and> list_all (\<lambda>(h', d', c'). d \<le> d') ps) x"
      using m(1) hm by force
    with none show False unfolding next_due_def find_None_iff by blast
  qed
next
  assume "list_all (\<lambda>(h, d, c). n < d) ps"
  then show "next_due n ps = None"
    by (auto simp: next_due_def find_None_iff list_all_iff)
qed

lemma run_next_Some:
  "run_next t = Some (c, t') \<Longrightarrow>
     \<exists>h d. (h, d, c) \<in> set (pending t) \<and> d \<le> now t \<and> t' = clearTimeout h t"
  by (auto simp: run_next_def split: option.splits dest!: next_due_Some)

lemma run_next_wf:
  "timers_wf t \<Longrightarrow> run_next t = Some (c, t') \<Longrightarrow> timers_wf t'"
  by (auto dest!: run_next_Some intro: clearTimeout_wf)

lemma run_next_None_iff:
  "run_next t = None \<longleftrightarrow> list_all (\<lambda>(h, d, c). now t < d) (pending t)"
  by (simp add: run_next_def next_due_None_iff [symmetric] split: option.splits)

lemma run_next_empty [simp]:
  "pending t = [] \<Longrightarrow> run_next t = None"
  by (simp add: run_next_None_iff)

lemma run_next_single:
  assumes "pending t = [(h, d, c)]" and "d \<le> now t"
  shows "run_next t = Some (c, t\<lparr>pending := []\<rparr>)"
  using assms by (simp add: run_next_def next_due_def clearTimeout_def)

lemma run_next_length:
  "run_next t = Some (c, t') \<Longrightarrow> length (pending t') < length (pending t)"
  by (auto dest!: run_next_Some intro!: length_filter_less)

lemma run_next_last:
  "length (pending t) \<le> 1 \<Longrightarrow> run_next t = Some (c, t') \<Longrightarrow> pending t' = []"
  using run_next_length [of t c t'] by (cases "pending t'") auto

lemma clearTimeout_setTimeout_commute:
  "h \<noteq> next_handle t \<Longrightarrow>
     clearTimeout h (snd (setTimeout cb delay t)) = snd (setTimeout cb delay (clearTimeout h t))"
  by (simp add: setTimeout_def clearTimeout_def)


lemma timeout_of_wraps:
  "timeout_of 2147483648 = 0 \<and> timeout_of 4294967296 = 0 \<and> timeout_of 4294967301 = 5 \<and>
   timeout_of (- 4294967291) = 5"
  by (simp add: timeout_of_def to_int32_mod)

text \<open>
  The timeout a delay gets is always below \<open>2^31\<close> ms and depends on the delay only
  modulo \<open>2^32\<close>: the conversion to a 32-bit \<open>long\<close> wraps around.
\<close>

lemma timeout_of_range:
  "timeout_of delay < 2147483648 \<and> timeout_of (delay + 4294967296 * k) = timeout_of delay"
proof -
  have "max 0 (to_int32 delay) < 2147483648" using to_int32_range [of delay] by simp
  then have "nat (max 0 (to_int32 delay)) < 2147483648" by (simp add: nat_less_iff)
  then show ?thesis by (simp add: timeout_of_def to_int32_periodic)
qed

text \<open>
  A delay in \<open>[-2^31, 2^31)\<close> is used as it is when positive, and as 0 (run at the
  next opportunity) when it is not.
\<close>

lemma timeout_of_exact:
  assumes "- 2147483648 \<le> delay" and "delay < 2147483648"
  shows "timeout_of delay = nat delay"
  using assms by (simp add: timeout_of_def to_int32_id)

text \<open>
  Clearing the timer just scheduled restores the pending list: \<open>clearTimeout\<close>
  undoes \<open>setTimeout\<close> on a well-formed host, only the handle counter moves on.
\<close>

lemma clearTimeout_setTimeout:
  assumes "timers_wf t"
  shows "clearTimeout (fst (setTimeout cb delay t)) (snd (setTimeout cb delay t)) =
           t\<lparr>next_handle := Suc (next_handle t)\<rparr>"
proof -
  from assms have "filter (\<lambda>(h', _, _). h' \<noteq> next_handle t) (pending t) = pending t"
    by (auto simp: timers_wf_def list_all_iff filter_id_conv)
  then show ?thesis by (simp add: setTimeout_def clearTimeout_def)
qed

end
