(* ===== verification/ReactHooks.thy ===== *)
theory ReactHooks
  imports Prelude
begin

text \<open>
  The parts of the React runtime the three hooks call: the dependency comparison
  \<open>areHookInputsEqual\<close>, the memo cell of \<open>useCallback\<close>, the decision whether a
  \<open>useEffect\<close> runs again, and the update queue of \<open>useState\<close>. They are the host's,
  not this repository's; the definitions follow React's documented behaviour (and
  \<open>ReactFiberHooks\<close>). A hook's cell is \<open>None\<close> before the component mounts.
\<close>

text \<open>
  \<open>areHookInputsEqual nextDeps prevDeps\<close> compares element-wise with \<open>Object.is\<close> over the
  common prefix only: arrays of different length with equal common prefix count as equal
  (React warns about the length change in development builds, and does not re-run).
\<close>

fun areHookInputsEqual :: "'a list \<Rightarrow> 'a list \<Rightarrow> bool" where
  "areHookInputsEqual (x # xs) (y # ys) = (x = y \<and> areHookInputsEqual xs ys)"
| "areHookInputsEqual _ _ = True"

record ('c, 'd) callback_cell =
  memo_cb :: 'c
  memo_deps :: "'d list"

text \<open>
  \<open>useCallback(cb, deps)\<close>: on mount, store and return \<open>cb\<close>; on update, return the stored
  callback if the dependencies are equal (the cell keeps the old dependencies), otherwise
  store and return the new one.
\<close>

definition useCallback ::
  "'c \<Rightarrow> 'd list \<Rightarrow> ('c, 'd) callback_cell option \<Rightarrow> 'c \<times> ('c, 'd) callback_cell" where
  "useCallback cb deps cell =
     (case cell of
        None \<Rightarrow> (cb, \<lparr>memo_cb = cb, memo_deps = deps\<rparr>)
      | Some m \<Rightarrow>
          (if areHookInputsEqual deps (memo_deps m) then (memo_cb m, m)
           else (cb, \<lparr>memo_cb = cb, memo_deps = deps\<rparr>)))"

text \<open>\<open>useEffect(create, deps)\<close> schedules its cleanup and \<open>create\<close> iff this holds.\<close>

definition effect_fires :: "'d list \<Rightarrow> 'd list option \<Rightarrow> bool" where
  "effect_fires deps prev =
     (case prev of None \<Rightarrow> True | Some p \<Rightarrow> \<not> areHookInputsEqual deps p)"

text \<open>
  \<open>useState\<close>: \<open>setState(a)\<close> appends \<open>a\<close> to the hook's queue; the next render folds
  the queue over the current value, a plain value replacing it and a function being
  applied to it.
\<close>

datatype 'a state_action = SetValue 'a | Updater "'a \<Rightarrow> 'a"

primrec apply_action :: "'a \<Rightarrow> 'a state_action \<Rightarrow> 'a" where
  "apply_action x (SetValue y) = y"
| "apply_action x (Updater f) = f x"

record 'a state_cell =
  current :: 'a
  queue :: "'a state_action list"

definition setState :: "'a state_action \<Rightarrow> 'a state_cell \<Rightarrow> 'a state_cell" where
  "setState a c = c\<lparr>queue := queue c @ [a]\<rparr>"

definition useState :: "'a \<Rightarrow> 'a state_cell option \<Rightarrow> 'a \<times> 'a state_cell" where
  "useState initial cell =
     (case cell of
        None \<Rightarrow> (initial, \<lparr>current = initial, queue = []\<rparr>)
      | Some c \<Rightarrow>
          (let v = foldl apply_action (current c) (queue c) in (v, \<lparr>current = v, queue = []\<rparr>)))"

section \<open>Lemmas\<close>

lemma areHookInputsEqual_refl [simp]: "areHookInputsEqual xs xs"
  by (induction xs) simp_all

lemma areHookInputsEqual_same_length:
  "length xs = length ys \<Longrightarrow> areHookInputsEqual xs ys \<longleftrightarrow> xs = ys"
  by (induction xs ys rule: areHookInputsEqual.induct) auto

lemma areHookInputsEqual_prefix:
  "areHookInputsEqual (xs @ ys) xs"
  by (induction xs) simp_all

lemma areHookInputsEqual_iff_prefix:
  "areHookInputsEqual xs ys \<longleftrightarrow> prefix xs ys \<or> prefix ys xs"
  by (induction xs ys rule: areHookInputsEqual.induct) auto

lemma areHookInputsEqual_pair [simp]:
  "areHookInputsEqual [a, b] [c, d] \<longleftrightarrow> a = c \<and> b = d"
  by simp

lemma useCallback_mount [simp]:
  "useCallback cb deps None = (cb, \<lparr>memo_cb = cb, memo_deps = deps\<rparr>)"
  by (simp add: useCallback_def)

lemma useCallback_equal:
  "areHookInputsEqual deps (memo_deps m) \<Longrightarrow> useCallback cb deps (Some m) = (memo_cb m, m)"
  by (simp add: useCallback_def)

lemma useCallback_changed:
  "\<not> areHookInputsEqual deps (memo_deps m) \<Longrightarrow>
     useCallback cb deps (Some m) = (cb, \<lparr>memo_cb = cb, memo_deps = deps\<rparr>)"
  by (simp add: useCallback_def)

lemma useCallback_memo:
  "memo_cb (snd (useCallback cb deps cell)) = fst (useCallback cb deps cell)"
  by (simp add: useCallback_def split: option.splits)

lemma useState_update [simp]:
  "useState initial (Some c) =
     (foldl apply_action (current c) (queue c),
      \<lparr>current = foldl apply_action (current c) (queue c), queue = []\<rparr>)"
  by (simp add: useState_def Let_def)

end
