(* ===== verification/Debounce.thy ===== *)
theory Debounce
  imports Timers ReactHooks
begin

text \<open>
  Model of \<open>src/useDebounce.ts\<close> running in a component on a page. One render of the hook
  is \<open>useDebounce_cell\<close> on the hook's cells (the \<open>useCallback\<close> memo, the
  \<open>useEffect\<close> dependencies and the \<open>handler\<close> its cleanup closes over) and the host's
  timers; the system state adds the log of calls of the debounced action with the time of
  each. Events are a render of the component with new arguments (render, commit and the
  passive effects flushed together), the unmount of the component, one millisecond passing,
  and the event loop running the next due timer; \<open>debounce_settle\<close> is the event loop
  running every task due at one instant. Function values are identities of type \<open>'f\<close>,
  compared by \<open>Object.is\<close>.
\<close>

record ('f, 'v) debounce_hook =
  callback_memo :: "('f, ('f, 'v) jsval) callback_cell"
  effect_deps :: "('f, 'v) jsval list"
  handler :: handle

record ('f, 'v) debounce_sys =
  timers :: "'f timer_host"
  hook :: "('f, 'v) debounce_hook option"
  calls :: "('f \<times> ms) list"

datatype ('f, 'v) debounce_event =
    Render 'f int "('f, 'v) jsval list"
  | Unmount
  | Tick
  | RunTimer

definition debounce_init :: "('f, 'v) debounce_sys" where
  "debounce_init = \<lparr>timers = timer_init, hook = None, calls = []\<rparr>"

text \<open>
  The cleanup closure of the effect, lines 15--17: \<open>clearTimeout(handler)\<close> for the
  handler the run it belongs to scheduled.
\<close>

definition debounce_cleanup :: "('f, 'v) debounce_hook \<Rightarrow> 'f timer_host \<Rightarrow> 'f timer_host" where
  "debounce_cleanup hk tm = clearTimeout (handler hk) tm"

text \<open>
  One render of \<open>useDebounce(effect, delay, deps)\<close> on the hook's cells and the host's
  timers: line 8 is \<open>useCallback\<close>; lines 10--18 are the effect with dependencies
  \<open>[callback, delay]\<close>. When it fires, the cleanup of the previous run runs before the new
  \<open>setTimeout\<close>. The cells are \<open>None\<close> before the mount.
\<close>

definition useDebounce_cell ::
  "'f \<Rightarrow> int \<Rightarrow> ('f, 'v) jsval list \<Rightarrow> ('f, 'v) debounce_hook option \<Rightarrow> 'f timer_host \<Rightarrow>
     ('f, 'v) debounce_hook option \<times> 'f timer_host" where
  "useDebounce_cell effect delay deps cell tm =
     (let (callback, memo) = useCallback effect deps (map_option callback_memo cell);
          edeps = [JFun callback, JNum delay]
      in if effect_fires edeps (map_option effect_deps cell)
         then
           (let tm1 = (case cell of None \<Rightarrow> tm | Some hk \<Rightarrow> debounce_cleanup hk tm);
                r = setTimeout callback delay tm1
            in (Some \<lparr>callback_memo = memo, effect_deps = edeps, handler = fst r\<rparr>, snd r))
         else
           (map_option (\<lambda>hk. hk\<lparr>callback_memo := memo, effect_deps := edeps\<rparr>) cell, tm))"

text \<open>The hook in the one component of the page.\<close>

definition useDebounce ::
  "'f \<Rightarrow> int \<Rightarrow> ('f, 'v) jsval list \<Rightarrow> ('f, 'v) debounce_sys \<Rightarrow> ('f, 'v) debounce_sys" where
  "useDebounce effect delay deps s =
     (let r = useDebounce_cell effect delay deps (hook s) (timers s)
      in s\<lparr>timers := snd r, hook := fst r\<rparr>)"

text \<open>Unmount runs the last effect's cleanup.\<close>

definition debounce_unmount :: "('f, 'v) debounce_sys \<Rightarrow> ('f, 'v) debounce_sys" where
  "debounce_unmount s =
     (case hook s of
        None \<Rightarrow> s
      | Some hk \<Rightarrow> s\<lparr>timers := debounce_cleanup hk (timers s), hook := None\<rparr>)"

text \<open>A due timer runs \<open>callback()\<close>, lines 11--13.\<close>

definition debounce_run_timer :: "('f, 'v) debounce_sys \<Rightarrow> ('f, 'v) debounce_sys" where
  "debounce_run_timer s =
     (case run_next (timers s) of
        None \<Rightarrow> s
      | Some (cb, tm) \<Rightarrow> s\<lparr>timers := tm, calls := calls s @ [(cb, now tm)]\<rparr>)"

text \<open>
  The event loop left alone at one instant: it runs due timer tasks, each calling
  \<open>callback()\<close>, until none is due. It is a loop, so its value is \<open>None\<close> if it
  never stops.
\<close>

definition debounce_settle :: "('f, 'v) debounce_sys \<Rightarrow> ('f, 'v) debounce_sys option" where
  "debounce_settle s = while_option (\<lambda>s. run_next (timers s) \<noteq> None) debounce_run_timer s"

fun debounce_step :: "('f, 'v) debounce_event \<Rightarrow> ('f, 'v) debounce_sys \<Rightarrow> ('f, 'v) debounce_sys" where
  "debounce_step (Render effect delay deps) s = useDebounce effect delay deps s"
| "debounce_step Unmount s = debounce_unmount s"
| "debounce_step Tick s = s\<lparr>timers := advance (timers s)\<rparr>"
| "debounce_step RunTimer s = debounce_run_timer s"

fun debounce_run :: "('f, 'v) debounce_event list \<Rightarrow> ('f, 'v) debounce_sys \<Rightarrow> ('f, 'v) debounce_sys" where
  "debounce_run [] s = s"
| "debounce_run (e # es) s = debounce_run es (debounce_step e s)"

inductive debounce_reach :: "('f, 'v) debounce_sys \<Rightarrow> bool" where
  init: "debounce_reach debounce_init"
| step: "debounce_reach s \<Longrightarrow> debounce_reach (debounce_step e s)"

text \<open>Events in which no component renders: time passing, timers running, unmounts.\<close>

fun renders :: "('f, 'v) debounce_event \<Rightarrow> bool" where
  "renders (Render _ _ _) = True"
| "renders _ = False"

definition quiet :: "('f, 'v) debounce_event list \<Rightarrow> bool" where
  "quiet evs \<longleftrightarrow> list_all (\<lambda>e. e = Tick \<or> e = RunTimer) evs"

definition ticks :: "('f, 'v) debounce_event list \<Rightarrow> nat" where
  "ticks evs = count_list evs Tick"

text \<open>
  A burst of registrations: each renders with a new effect and new dependencies and is
  followed by a gap of quiet events.
\<close>

fun burst :: "int \<Rightarrow> ('f \<times> ('f, 'v) jsval list \<times> ('f, 'v) debounce_event list) list \<Rightarrow>
    ('f, 'v) debounce_event list" where
  "burst d [] = []"
| "burst d ((effect, deps, gap) # rs) = Render effect d deps # gap @ burst d rs"

fun rearm_chain :: "('f \<times> ('f, 'v) jsval list) list \<Rightarrow> bool" where
  "rearm_chain ((e1, d1) # (e2, d2) # rs) =
     (e2 \<noteq> e1 \<and> \<not> areHookInputsEqual d2 d1 \<and> rearm_chain ((e2, d2) # rs))"
| "rearm_chain _ = True"

section \<open>The invariant\<close>

text \<open>
  The effect's dependencies are \<open>[callback, delay]\<close> for the memoised callback, and every
  pending timer is the one the current effect scheduled, carrying that callback. Unmounted,
  nothing is pending.
\<close>

fun effect_args :: "('f, 'v) jsval list \<Rightarrow> ('f \<times> int) option" where
  "effect_args [JFun c, JNum d] = Some (c, d)"
| "effect_args _ = None"

definition cell_matches :: "('f, 'v) debounce_hook \<Rightarrow> bool" where
  "cell_matches hk = (map_option fst (effect_args (effect_deps hk)) = Some (memo_cb (callback_memo hk)))"

definition debounce_inv :: "('f, 'v) debounce_sys \<Rightarrow> bool" where
  "debounce_inv s \<longleftrightarrow>
     timers_wf (timers s) \<and>
     (case hook s of
        None \<Rightarrow> pending (timers s) = []
      | Some hk \<Rightarrow>
          cell_matches hk \<and>
          list_all (\<lambda>(h, d, c). h = handler hk \<and> c = memo_cb (callback_memo hk))
            (pending (timers s)))"

text \<open>
  The state up to the names of timer handles: the clock, the hook's cells other than the
  handler, and the due times and callbacks of the pending timers.
\<close>

definition debounce_hview ::
  "('f, 'v) debounce_sys \<Rightarrow> ms \<times> (('f, ('f, 'v) jsval) callback_cell \<times> ('f, 'v) jsval list) option \<times> (ms \<times> 'f) list" where
  "debounce_hview d =
     (now (timers d), map_option (\<lambda>hk. (callback_memo hk, effect_deps hk)) (hook d), map snd (pending (timers d)))"

text \<open>What can be observed of the hook up to the names of handles: that state and the calls.\<close>

definition debounce_obs ::
  "('f, 'v) debounce_sys \<Rightarrow> (ms \<times> (('f, ('f, 'v) jsval) callback_cell \<times> ('f, 'v) jsval list) option \<times> (ms \<times> 'f) list) \<times> ('f \<times> ms) list" where
  "debounce_obs d = (debounce_hview d, calls d)"

section \<open>Lemmas\<close>

lemmas useDebounce_defs = useDebounce_def useDebounce_cell_def debounce_cleanup_def

lemma useDebounce_cell_fires:
  assumes "useCallback effect deps (map_option callback_memo cell) = (cb, memo)"
    and "effect_fires [JFun cb, JNum delay] (map_option effect_deps cell)"
  shows "useDebounce_cell effect delay deps cell tm =
    (Some \<lparr>callback_memo = memo, effect_deps = [JFun cb, JNum delay], handler = next_handle tm\<rparr>,
     tm\<lparr>next_handle := Suc (next_handle tm),
        pending := filter (\<lambda>(h', _, _). Some h' \<noteq> map_option handler cell) (pending tm) @
                   [(next_handle tm, now tm + timeout_of delay, cb)]\<rparr>)"
  using assms
  by (cases cell) (auto simp: useDebounce_cell_def debounce_cleanup_def setTimeout_def clearTimeout_def)

lemma useDebounce_cell_keeps:
  assumes "useCallback effect deps (map_option callback_memo cell) = (cb, memo)"
    and "\<not> effect_fires [JFun cb, JNum delay] (map_option effect_deps cell)"
  shows "useDebounce_cell effect delay deps cell tm =
    (map_option (\<lambda>hk. hk\<lparr>callback_memo := memo, effect_deps := [JFun cb, JNum delay]\<rparr>) cell, tm)"
  using assms by (simp add: useDebounce_cell_def)

lemma effect_args_Some:
  "effect_args xs = Some (c, d) \<longleftrightarrow> xs = [JFun c, JNum d]"
  by (induction xs rule: effect_args.induct) auto

lemma cell_matches_iff:
  "cell_matches hk \<longleftrightarrow> (\<exists>d. effect_deps hk = [JFun (memo_cb (callback_memo hk)), JNum d])"
  by (auto simp: cell_matches_def effect_args_Some [symmetric])

lemma filter_own_handler:
  "list_all (\<lambda>(h, d, c). h = H \<and> P c) ps \<Longrightarrow> filter (\<lambda>(h', _, _). h' \<noteq> H) ps = []"
  by (induction ps) auto

lemma own_handler_length:
  assumes "distinct (map fst ps)" and "list_all (\<lambda>(h, d, c). h = H \<and> P c) ps"
  shows "length ps \<le> 1"
proof -
  from assms(2) have "set (map fst ps) \<subseteq> {H}" by (auto simp: list_all_iff)
  then have "card (set (map fst ps)) \<le> 1" using card_mono [of "{H}"] by simp
  moreover have "card (set (map fst ps)) = length ps"
    using distinct_card [OF assms(1)] by simp
  ultimately show ?thesis by simp
qed

lemma debounce_run_append:
  "debounce_run (xs @ ys) s = debounce_run ys (debounce_run xs s)"
  by (induction xs arbitrary: s) simp_all

lemma debounce_reach_run: "debounce_reach (debounce_run es debounce_init)"
proof -
  have "debounce_reach s \<Longrightarrow> debounce_reach (debounce_run es s)" for s :: "('a, 'b) debounce_sys"
    by (induction es arbitrary: s) (auto intro: debounce_reach.step)
  then show ?thesis by (blast intro: debounce_reach.init)
qed

lemma debounce_inv_init: "debounce_inv debounce_init"
  by (simp add: debounce_inv_def debounce_init_def timer_init_def timers_wf_def)

lemma useDebounce_inv:
  assumes "debounce_inv s"
  shows "debounce_inv (useDebounce effect delay deps s)"
proof (cases "hook s")
  case None
  with assms show ?thesis
    by (simp add: useDebounce_defs Let_def effect_fires_def debounce_inv_def cell_matches_def setTimeout_wf)
next
  case (Some hk)
  obtain callback memo where cb: "useCallback effect deps (Some (callback_memo hk)) = (callback, memo)"
    by fastforce
  have memo: "memo_cb memo = callback" using useCallback_memo [of effect deps "Some (callback_memo hk)"] cb
    by simp
  from assms Some obtain d0 where ed: "effect_deps hk = [JFun (memo_cb (callback_memo hk)), JNum d0]"
    and own: "list_all (\<lambda>(h, d, c). h = handler hk \<and> c = memo_cb (callback_memo hk)) (pending (timers s))"
    and wf: "timers_wf (timers s)"
    by (auto simp: debounce_inv_def cell_matches_iff)
  show ?thesis
  proof (cases "effect_fires [JFun callback, JNum delay] (Some (effect_deps hk))")
    case True
    have "pending (clearTimeout (handler hk) (timers s)) = []"
      using own by (simp add: filter_own_handler)
    moreover have "timers_wf (snd (setTimeout callback delay (clearTimeout (handler hk) (timers s))))"
      using wf by (intro setTimeout_wf clearTimeout_wf)
    ultimately show ?thesis using Some cb True memo
      by (simp add: useDebounce_defs Let_def debounce_inv_def cell_matches_def)
  next
    case False
    then have "callback = memo_cb (callback_memo hk)" and "delay = d0"
      using ed by (simp_all add: effect_fires_def)
    with assms Some cb False memo ed show ?thesis
      by (simp add: useDebounce_defs Let_def debounce_inv_def cell_matches_def)
  qed
qed

lemma debounce_unmount_inv:
  "debounce_inv s \<Longrightarrow> debounce_inv (debounce_unmount s)"
  by (auto simp: debounce_unmount_def debounce_cleanup_def debounce_inv_def filter_own_handler clearTimeout_wf
      split: option.splits)

lemma debounce_run_timer_inv:
  assumes "debounce_inv s"
  shows "debounce_inv (debounce_run_timer s)"
proof (cases "run_next (timers s)")
  case None
  with assms show ?thesis by (simp add: debounce_run_timer_def)
next
  case (Some r)
  obtain cb tm where r: "r = (cb, tm)" by fastforce
  with Some obtain h and d :: ms where tm: "tm = clearTimeout h (timers s)"
    by (auto dest: run_next_Some)
  from assms Some r have "timers_wf tm" by (auto simp: debounce_inv_def intro: run_next_wf)
  with assms Some r tm show ?thesis
    by (auto simp: debounce_run_timer_def debounce_inv_def list_all_iff split: option.splits)
qed

lemma debounce_tick_inv:
  "debounce_inv s \<Longrightarrow> debounce_inv (s\<lparr>timers := advance (timers s)\<rparr>)"
  by (simp add: debounce_inv_def advance_wf split: option.splits)

lemma debounce_step_inv:
  "debounce_inv s \<Longrightarrow> debounce_inv (debounce_step e s)"
  by (cases e)
    (simp_all add: useDebounce_inv debounce_unmount_inv debounce_run_timer_inv debounce_tick_inv)

lemma debounce_reach_inv: "debounce_reach s \<Longrightarrow> debounce_inv s"
  by (induction rule: debounce_reach.induct) (simp_all add: debounce_inv_init debounce_step_inv)


lemma debounce_run_inv_pres:
  "debounce_inv s \<Longrightarrow> debounce_inv (debounce_run es s)"
  by (induction es arbitrary: s) (simp_all add: debounce_step_inv)

lemma debounce_inv_pending:
  assumes "debounce_inv s"
  shows "length (pending (timers s)) \<le> 1"
proof (cases "hook s")
  case None
  with assms show ?thesis by (simp add: debounce_inv_def)
next
  case (Some hk)
  with assms have "distinct (map fst (pending (timers s)))"
    and "list_all (\<lambda>(h, d, c). h = handler hk \<and> c = memo_cb (callback_memo hk)) (pending (timers s))"
    by (simp_all add: debounce_inv_def timers_wf_def)
  then show ?thesis by (rule own_handler_length)
qed

section \<open>The event loop at one instant\<close>

lemma debounce_run_timer_length:
  "run_next (timers s) \<noteq> None \<Longrightarrow>
     length (pending (timers (debounce_run_timer s))) < length (pending (timers s))"
  by (auto simp: debounce_run_timer_def dest: run_next_length)

lemma debounce_run_timer_fields:
  "now (timers (debounce_run_timer s)) = now (timers s) \<and> hook (debounce_run_timer s) = hook s \<and>
   (\<exists>new. calls (debounce_run_timer s) = calls s @ new \<and>
      list_all (\<lambda>(c, t). t = now (timers s)) new)"
  by (auto simp: debounce_run_timer_def split: option.splits dest!: run_next_Some)

lemma debounce_settle_unfold:
  "debounce_settle s =
     (if run_next (timers s) = None then Some s else debounce_settle (debounce_run_timer s))"
  unfolding debounce_settle_def by (subst while_option_unfold) simp

section \<open>Independence from the names of handles\<close>

lemma debounce_inv_filter:
  "debounce_inv d \<Longrightarrow> filter (\<lambda>(h', _, _). Some h' \<noteq> map_option handler (hook d)) (pending (timers d)) = []"
  by (cases "hook d") (auto simp: debounce_inv_def filter_empty_conv list_all_iff)

lemma run_next_short:
  assumes "length (pending t1) \<le> 1" and "length (pending t2) \<le> 1"
    and "map snd (pending t1) = map snd (pending t2)" and "now t1 = now t2"
  shows "map_option (\<lambda>(c, t). (c, now t, map snd (pending t))) (run_next t1) =
         map_option (\<lambda>(c, t). (c, now t, map snd (pending t))) (run_next t2)"
proof (cases "pending t1")
  case Nil
  with assms(3) show ?thesis by simp
next
  case (Cons x xs)
  with assms(1) obtain h1 d c where p1: "pending t1 = [(h1, d, c)]" by (cases x) auto
  with assms(3) have "map snd (pending t2) = [(d, c)]" by simp
  with assms(2) obtain y where "pending t2 = [y]" "snd y = (d, c)" by (cases "pending t2") auto
  then obtain h2 where p2: "pending t2 = [(h2, d, c)]" by (cases y) auto
  from p1 p2 assms(4) show ?thesis by (simp add: run_next_def next_due_def clearTimeout_def)
qed

lemma debounce_step_hview:
  assumes inv1: "debounce_inv d1" and inv2: "debounce_inv d2"
    and eq: "debounce_hview d1 = debounce_hview d2"
  shows "debounce_hview (debounce_step e d1) = debounce_hview (debounce_step e d2)"
proof (cases e)
  case (Render effect delay deps)
  from eq have now: "now (timers d1) = now (timers d2)"
    and hk: "map_option (\<lambda>hk. (callback_memo hk, effect_deps hk)) (hook d1) =
             map_option (\<lambda>hk. (callback_memo hk, effect_deps hk)) (hook d2)"
    and ps: "map snd (pending (timers d1)) = map snd (pending (timers d2))"
    by (simp_all add: debounce_hview_def)
  from hk have cm: "map_option callback_memo (hook d1) = map_option callback_memo (hook d2)"
    and ed: "map_option effect_deps (hook d1) = map_option effect_deps (hook d2)"
    by (cases "hook d1"; cases "hook d2"; simp)+
  obtain cb memo where cbm: "useCallback effect deps (map_option callback_memo (hook d1)) = (cb, memo)"
    by fastforce
  with cm have cbm2: "useCallback effect deps (map_option callback_memo (hook d2)) = (cb, memo)" by simp
  show ?thesis
  proof (cases "effect_fires [JFun cb, JNum delay] (map_option effect_deps (hook d1))")
    case True
    with ed have True2: "effect_fires [JFun cb, JNum delay] (map_option effect_deps (hook d2))" by simp
    show ?thesis using Render now debounce_inv_filter [OF inv1] debounce_inv_filter [OF inv2]
      by (simp add: useDebounce_def useDebounce_cell_fires [OF cbm True] useDebounce_cell_fires [OF cbm2 True2]
          debounce_hview_def)
  next
    case False
    with ed have False2: "\<not> effect_fires [JFun cb, JNum delay] (map_option effect_deps (hook d2))" by simp
    from hk have "map_option (\<lambda>hk. (callback_memo hk, effect_deps hk))
        (map_option (\<lambda>hk. hk\<lparr>callback_memo := memo, effect_deps := [JFun cb, JNum delay]\<rparr>) (hook d1)) =
      map_option (\<lambda>hk. (callback_memo hk, effect_deps hk))
        (map_option (\<lambda>hk. hk\<lparr>callback_memo := memo, effect_deps := [JFun cb, JNum delay]\<rparr>) (hook d2))"
      by (cases "hook d1"; cases "hook d2"; simp)
    then show ?thesis using Render now ps
      by (simp add: useDebounce_def useDebounce_cell_keeps [OF cbm False] useDebounce_cell_keeps [OF cbm2 False2]
          debounce_hview_def)
  qed
next
  case Unmount
  from eq have "hook d1 = None \<longleftrightarrow> hook d2 = None" by (auto simp: debounce_hview_def)
  with eq Unmount debounce_inv_filter [OF inv1] debounce_inv_filter [OF inv2] show ?thesis
    by (cases "hook d1"; cases "hook d2")
      (simp_all add: debounce_unmount_def debounce_cleanup_def debounce_hview_def)
next
  case Tick
  with eq show ?thesis by (simp add: debounce_hview_def)
next
  case RunTimer
  from eq have "now (timers d1) = now (timers d2)" "map snd (pending (timers d1)) = map snd (pending (timers d2))"
    by (simp_all add: debounce_hview_def)
  from run_next_short [OF debounce_inv_pending [OF inv1] debounce_inv_pending [OF inv2] this(2,1)] eq RunTimer
  show ?thesis
    by (auto simp: debounce_run_timer_def debounce_hview_def split: option.splits)
qed

lemma debounce_step_calls:
  assumes inv1: "debounce_inv d1" and inv2: "debounce_inv d2"
    and eq: "debounce_hview d1 = debounce_hview d2" and c: "calls d1 = calls d2"
  shows "calls (debounce_step e d1) = calls (debounce_step e d2)"
proof (cases e)
  case (Render effect delay deps)
  with c show ?thesis by (simp add: useDebounce_def Let_def)
next
  case Unmount
  with c show ?thesis by (cases "hook d1"; cases "hook d2") (simp_all add: debounce_unmount_def)
next
  case Tick
  with c show ?thesis by simp
next
  case RunTimer
  from eq have "now (timers d1) = now (timers d2)" "map snd (pending (timers d1)) = map snd (pending (timers d2))"
    by (simp_all add: debounce_hview_def)
  from run_next_short [OF debounce_inv_pending [OF inv1] debounce_inv_pending [OF inv2] this(2,1)] c RunTimer
  show ?thesis
    by (cases "run_next (timers d1)"; cases "run_next (timers d2)") (auto simp: debounce_run_timer_def)
qed

lemma debounce_run_hview:
  "debounce_inv d1 \<Longrightarrow> debounce_inv d2 \<Longrightarrow> debounce_hview d1 = debounce_hview d2 \<Longrightarrow> calls d1 = calls d2 \<Longrightarrow>
     debounce_hview (debounce_run es d1) = debounce_hview (debounce_run es d2) \<and>
     calls (debounce_run es d1) = calls (debounce_run es d2)"
proof (induction es arbitrary: d1 d2)
  case Nil
  then show ?case by simp
next
  case (Cons e es)
  have "debounce_hview (debounce_step e d1) = debounce_hview (debounce_step e d2)"
    by (rule debounce_step_hview [OF Cons.prems(1-3)])
  moreover have "calls (debounce_step e d1) = calls (debounce_step e d2)"
    by (rule debounce_step_calls [OF Cons.prems])
  ultimately show ?case
    using Cons.IH [OF debounce_step_inv [OF Cons.prems(1)] debounce_step_inv [OF Cons.prems(2)]] by simp
qed

lemma debounce_run_obs:
  "debounce_inv d1 \<Longrightarrow> debounce_inv d2 \<Longrightarrow> debounce_obs d1 = debounce_obs d2 \<Longrightarrow>
     debounce_obs (debounce_run es d1) = debounce_obs (debounce_run es d2)"
  using debounce_run_hview [of d1 d2 es] by (simp add: debounce_obs_def)

section \<open>Runs without renders\<close>

lemma debounce_run_ticks:
  "debounce_run (replicate k Tick) s = s\<lparr>timers := (timers s)\<lparr>now := now (timers s) + k\<rparr>\<rparr>"
  by (induction k arbitrary: s) (simp_all add: advance_def)

lemma debounce_quiet_run:
  assumes "quiet evs"
    and "list_all (\<lambda>(h, d, c). now (timers s) + ticks evs < d) (pending (timers s))"
  shows "debounce_run evs s = s\<lparr>timers := (timers s)\<lparr>now := now (timers s) + ticks evs\<rparr>\<rparr>"
  using assms
proof (induction evs arbitrary: s)
  case Nil
  then show ?case by (simp add: ticks_def)
next
  case (Cons e evs)
  then have e: "e = Tick \<or> e = RunTimer" and q: "quiet evs" by (simp_all add: quiet_def)
  show ?case
  proof (cases "e = Tick")
    case True
    let ?s' = "s\<lparr>timers := advance (timers s)\<rparr>"
    have "list_all (\<lambda>(h, d, c). now (timers ?s') + ticks evs < d) (pending (timers ?s'))"
      using Cons.prems(2) True by (simp add: ticks_def)
    with Cons.IH [OF q] True show ?thesis by (simp add: ticks_def advance_def)
  next
    case False
    with e have run: "e = RunTimer" by simp
    have "run_next (timers s) = None"
      using Cons.prems(2) by (auto simp: run_next_None_iff list_all_iff)
    then have "debounce_step e s = s" by (simp add: run debounce_run_timer_def)
    moreover have "list_all (\<lambda>(h, d, c). now (timers s) + ticks evs < d) (pending (timers s))"
      using Cons.prems(2) run by (simp add: ticks_def)
    ultimately show ?thesis using Cons.IH [OF q] run by (simp add: ticks_def)
  qed
qed

lemma debounce_fire_due:
  assumes "pending (timers s) = [(h, due, c)]" and "now (timers s) \<le> due"
  shows "debounce_run (replicate (due - now (timers s)) Tick @ [RunTimer]) s =
           s\<lparr>timers := (timers s)\<lparr>now := due, pending := []\<rparr>, calls := calls s @ [(c, due)]\<rparr>"
proof -
  let ?s1 = "s\<lparr>timers := (timers s)\<lparr>now := due\<rparr>\<rparr>"
  have "debounce_run (replicate (due - now (timers s)) Tick) s = ?s1"
    using assms(2) by (simp add: debounce_run_ticks)
  moreover have "run_next (timers ?s1) = Some (c, (timers ?s1)\<lparr>pending := []\<rparr>)"
    using assms(1) run_next_single [of "timers ?s1" h due c] by simp
  ultimately show ?thesis
    by (simp add: debounce_run_append debounce_run_timer_def)
qed

lemma debounce_unmounted_run:
  assumes "hook s = None" and "pending (timers s) = []" and "list_all (\<lambda>e. \<not> renders e) es"
  shows "calls (debounce_run es s) = calls s"
  using assms
proof (induction es arbitrary: s)
  case Nil
  then show ?case by simp
next
  case (Cons e es)
  then have "hook (debounce_step e s) = None \<and> pending (timers (debounce_step e s)) = [] \<and>
             calls (debounce_step e s) = calls s"
    by (cases e) (simp_all add: debounce_unmount_def debounce_cleanup_def debounce_run_timer_def run_next_None_iff)
  with Cons show ?case by simp
qed

section \<open>Renders\<close>

lemma useDebounce_rearm_state:
  assumes "debounce_inv s" and "hook s = Some hk"
    and "\<not> areHookInputsEqual deps (memo_deps (callback_memo hk))"
    and "effect \<noteq> memo_cb (callback_memo hk)"
  shows "useDebounce effect delay deps s =
    s\<lparr>timers := (timers s)\<lparr>next_handle := Suc (next_handle (timers s)),
         pending := [(next_handle (timers s), now (timers s) + timeout_of delay, effect)]\<rparr>,
      hook := Some \<lparr>callback_memo = \<lparr>memo_cb = effect, memo_deps = deps\<rparr>,
         effect_deps = [JFun effect, JNum delay], handler = next_handle (timers s)\<rparr>\<rparr>"
proof -
  from assms(1,2) obtain d0 where ed: "effect_deps hk = [JFun (memo_cb (callback_memo hk)), JNum d0]"
    and own: "list_all (\<lambda>(h, d, c). h = handler hk \<and> c = memo_cb (callback_memo hk)) (pending (timers s))"
    by (auto simp: debounce_inv_def cell_matches_iff)
  from own have "pending (clearTimeout (handler hk) (timers s)) = []"
    by (simp add: filter_own_handler)
  with assms(2-4) ed show ?thesis
    by (simp add: useDebounce_defs Let_def useCallback_changed effect_fires_def setTimeout_def
        clearTimeout_def)
qed

lemma useDebounce_mount_state:
  assumes "hook s = None"
  shows "useDebounce effect delay deps s =
    s\<lparr>timers := (timers s)\<lparr>next_handle := Suc (next_handle (timers s)),
         pending := pending (timers s) @ [(next_handle (timers s), now (timers s) + timeout_of delay, effect)]\<rparr>,
      hook := Some \<lparr>callback_memo = \<lparr>memo_cb = effect, memo_deps = deps\<rparr>,
         effect_deps = [JFun effect, JNum delay], handler = next_handle (timers s)\<rparr>\<rparr>"
  using assms by (simp add: useDebounce_defs Let_def effect_fires_def setTimeout_def)

lemma debounce_burst_armed:
  assumes "debounce_inv s" and "hook s = Some hk"
    and "rearm_chain ((memo_cb (callback_memo hk), memo_deps (callback_memo hk)) #
           map (\<lambda>(e, deps, gap). (e, deps)) rs @ [(effect, deps)])"
    and "list_all (\<lambda>(e, deps, gap). quiet gap \<and> ticks gap < timeout_of delay) rs"
  shows "debounce_run (burst delay rs @ [Render effect delay deps]) s =
    s\<lparr>timers := (timers s)\<lparr>now := now (timers s) + sum_list (map (\<lambda>(e, deps, gap). ticks gap) rs),
         next_handle := Suc (next_handle (timers s) + length rs),
         pending := [(next_handle (timers s) + length rs,
                      now (timers s) + sum_list (map (\<lambda>(e, deps, gap). ticks gap) rs) + timeout_of delay,
                      effect)]\<rparr>,
      hook := Some \<lparr>callback_memo = \<lparr>memo_cb = effect, memo_deps = deps\<rparr>,
         effect_deps = [JFun effect, JNum delay], handler = next_handle (timers s) + length rs\<rparr>\<rparr>"
  using assms
proof (induction rs arbitrary: s hk)
  case Nil
  then show ?case by (simp add: useDebounce_rearm_state)
next
  case (Cons r rs)
  obtain e1 deps1 gap1 where r: "r = (e1, deps1, gap1)" by (cases r)
  let ?s1 = "useDebounce e1 delay deps1 s"
  let ?hk1 = "\<lparr>callback_memo = \<lparr>memo_cb = e1, memo_deps = deps1\<rparr>,
         effect_deps = [JFun e1, JNum delay], handler = next_handle (timers s)\<rparr>"
  from Cons.prems(3) r have ch1: "\<not> areHookInputsEqual deps1 (memo_deps (callback_memo hk))"
    "e1 \<noteq> memo_cb (callback_memo hk)"
    and ch: "rearm_chain ((e1, deps1) # map (\<lambda>(e, deps, gap). (e, deps)) rs @ [(effect, deps)])"
    by (cases rs; simp)+
  from Cons.prems(4) r have q: "quiet gap1" "ticks gap1 < timeout_of delay"
    and qs: "list_all (\<lambda>(e, deps, gap). quiet gap \<and> ticks gap < timeout_of delay) rs"
    by simp_all
  have s1: "?s1 = s\<lparr>timers := (timers s)\<lparr>next_handle := Suc (next_handle (timers s)),
         pending := [(next_handle (timers s), now (timers s) + timeout_of delay, e1)]\<rparr>,
      hook := Some ?hk1\<rparr>"
    using Cons.prems(1,2) ch1 by (rule useDebounce_rearm_state)
  let ?s2 = "debounce_run gap1 ?s1"
  have s2: "?s2 = ?s1\<lparr>timers := (timers ?s1)\<lparr>now := now (timers ?s1) + ticks gap1\<rparr>\<rparr>"
    using q by (intro debounce_quiet_run) (simp_all add: s1)
  have inv2: "debounce_inv ?s2"
    using Cons.prems(1) by (intro debounce_run_inv_pres useDebounce_inv)
  have hk2: "hook ?s2 = Some ?hk1" unfolding s2 by (simp add: s1)
  have s2': "?s2 = s\<lparr>timers := (timers s)\<lparr>now := now (timers s) + ticks gap1,
         next_handle := Suc (next_handle (timers s)),
         pending := [(next_handle (timers s), now (timers s) + timeout_of delay, e1)]\<rparr>,
      hook := Some ?hk1\<rparr>"
    unfolding s2 by (simp add: s1)
  have "debounce_run (burst delay (r # rs) @ [Render effect delay deps]) s =
        debounce_run (burst delay rs @ [Render effect delay deps]) ?s2"
    by (simp add: r debounce_run_append)
  also have "\<dots> =
    ?s2\<lparr>timers := (timers ?s2)\<lparr>now := now (timers ?s2) + sum_list (map (\<lambda>(e, deps, gap). ticks gap) rs),
         next_handle := Suc (next_handle (timers ?s2) + length rs),
         pending := [(next_handle (timers ?s2) + length rs,
                      now (timers ?s2) + sum_list (map (\<lambda>(e, deps, gap). ticks gap) rs) + timeout_of delay,
                      effect)]\<rparr>,
      hook := Some \<lparr>callback_memo = \<lparr>memo_cb = effect, memo_deps = deps\<rparr>,
         effect_deps = [JFun effect, JNum delay], handler = next_handle (timers ?s2) + length rs\<rparr>\<rparr>"
    using Cons.IH [OF inv2 hk2] ch qs by simp
  finally show ?case unfolding s2' by (simp add: r add.assoc)
qed


lemma debounce_demo_state:
  "debounce_run [Render (0::nat) 5 [JNum 0]] (debounce_init :: (nat, unit) debounce_sys) =
     \<lparr>timers = \<lparr>now = 0, next_handle = 2, pending = [(1, 5, 0)]\<rparr>,
      hook = Some \<lparr>callback_memo = \<lparr>memo_cb = 0, memo_deps = [JNum 0]\<rparr>,
                   effect_deps = [JFun 0, JNum 5], handler = 1\<rparr>,
      calls = []\<rparr>"
  by (simp add: debounce_init_def useDebounce_defs Let_def effect_fires_def setTimeout_def
      timer_init_def timeout_of_def to_int32_mod)

text \<open>
  The host's drain of the event loop at one instant, \<open>debounce_settle\<close>: it always stops,
  since each timer task takes its timer off the list; when it stops nothing is due; and on
  states of the invariant it is a single timer task.
\<close>

lemma debounce_settle_terminates: "\<exists>s'. debounce_settle s = Some s'"
  unfolding debounce_settle_def
  by (rule measure_while_option_Some [where P = "\<lambda>_. True" and f = "\<lambda>s. length (pending (timers s))"])
    (simp_all add: debounce_run_timer_length)

lemma debounce_settle_result:
  assumes "debounce_settle s = Some s'"
  shows "run_next (timers s') = None \<and> now (timers s') = now (timers s) \<and> hook s' = hook s \<and>
         (\<exists>new. calls s' = calls s @ new \<and> list_all (\<lambda>(c, t). t = now (timers s)) new)"
proof -
  let ?P = "\<lambda>x. now (timers x) = now (timers s) \<and> hook x = hook s \<and>
     (\<exists>new. calls x = calls s @ new \<and> list_all (\<lambda>(c, t). t = now (timers s)) new)"
  have step: "?P (debounce_run_timer x)" if "?P x" and "run_next (timers x) \<noteq> None" for x
    using that(1) debounce_run_timer_fields [of x] by fastforce
  have "?P s'"
    by (rule while_option_rule [where P = ?P, OF step assms [unfolded debounce_settle_def]]) simp_all
  moreover have "run_next (timers s') = None"
    using while_option_stop [OF assms [unfolded debounce_settle_def]]
    by (cases "run_next (timers s')") auto
  ultimately show ?thesis by blast
qed

lemma debounce_settle_single:
  assumes "debounce_inv s"
  shows "debounce_settle s = Some (debounce_run_timer s)"
proof (cases "run_next (timers s)")
  case None
  then show ?thesis by (subst debounce_settle_unfold) (simp add: debounce_run_timer_def)
next
  case (Some r)
  obtain c t' where r: "run_next (timers s) = Some (c, t')" using Some by (cases r) simp
  have "pending t' = []" by (rule run_next_last [OF debounce_inv_pending [OF assms] r])
  then have n: "run_next (timers (debounce_run_timer s)) = None"
    using r by (simp add: debounce_run_timer_def)
  have "debounce_settle s = debounce_settle (debounce_run_timer s)"
    using r by (subst debounce_settle_unfold) simp
  also have "\<dots> = Some (debounce_run_timer s)"
    using n by (subst debounce_settle_unfold) simp
  finally show ?thesis .
qed

section \<open>Properties\<close>

text \<open>
  C1. Every state the page can reach satisfies the invariant: the effect's dependencies are
  \<open>[callback, delay]\<close> of the memoised callback and every pending timer is the one the current
  effect scheduled, carrying that callback; when unmounted nothing is pending.
\<close>

theorem debounce_run_inv: "debounce_inv (debounce_run es debounce_init)"
  by (rule debounce_reach_inv [OF debounce_reach_run])

text \<open>C2. No two timers of the hook are ever outstanding at the same time.\<close>

theorem debounce_at_most_one_timer:
  "length (pending (timers (debounce_run es debounce_init))) \<le> 1"
  by (rule debounce_inv_pending [OF debounce_reach_inv [OF debounce_reach_run]])

text \<open>
  C3. Once the component has unmounted, the action is never called again, whatever time
  passes and whichever timers run, until a component renders the hook anew.
\<close>

theorem debounce_no_call_after_unmount:
  assumes "list_all (\<lambda>e. \<not> renders e) es2"
  shows "calls (debounce_run (es1 @ Unmount # es2) debounce_init) = calls (debounce_run es1 debounce_init)"
proof -
  let ?s = "debounce_run es1 debounce_init"
  have inv: "debounce_inv ?s" by (rule debounce_reach_inv [OF debounce_reach_run])
  then have "hook (debounce_unmount ?s) = None" and "pending (timers (debounce_unmount ?s)) = []"
    and "calls (debounce_unmount ?s) = calls ?s"
    by (auto simp: debounce_unmount_def debounce_cleanup_def debounce_inv_def filter_own_handler split: option.splits)
  with assms show ?thesis by (simp add: debounce_run_append debounce_unmounted_run)
qed

lemma debounce_no_call_after_unmount_witness:
  "calls (debounce_run ([Render (0::nat) 5 [JNum 0], Tick] @ Unmount # [Tick, Tick, Tick, Tick, Tick, RunTimer])
      (debounce_init :: (nat, unit) debounce_sys)) = []"
proof -
  have h: "list_all (\<lambda>e. \<not> renders e) [Tick, Tick, Tick, Tick, Tick, RunTimer :: (nat, unit) debounce_event]"
    by simp
  show ?thesis using debounce_no_call_after_unmount [OF h, of "[Render 0 5 [JNum 0], Tick]"]
    by (simp add: debounce_init_def useDebounce_defs Let_def effect_fires_def setTimeout_def
        timer_init_def advance_def)
qed

text \<open>
  C4. Debounce: from any reachable mounted state, a burst of re-registrations, each with a new
  action and new dependencies and each followed by fewer than the timeout's milliseconds of
  quiet, and then a last registration followed by a full timeout, calls the action exactly
  once: the last registration's action, a timeout after the last registration.
\<close>

theorem debounce_burst:
  assumes "debounce_inv s" and "hook s = Some hk"
    and "rearm_chain ((memo_cb (callback_memo hk), memo_deps (callback_memo hk)) #
           map (\<lambda>(e, deps, gap). (e, deps)) rs @ [(effect, deps)])"
    and "list_all (\<lambda>(e, deps, gap). quiet gap \<and> ticks gap < timeout_of delay) rs"
  shows "calls (debounce_run (burst delay rs @ Render effect delay deps #
                replicate (timeout_of delay) Tick @ [RunTimer]) s) =
         calls s @ [(effect, now (timers s) + sum_list (map (\<lambda>(e, deps, gap). ticks gap) rs) +
                              timeout_of delay)]"
proof -
  let ?t = "now (timers s) + sum_list (map (\<lambda>(e, deps, gap). ticks gap) rs)"
  let ?s' = "debounce_run (burst delay rs @ [Render effect delay deps]) s"
  have s': "pending (timers ?s') = [(next_handle (timers s) + length rs, ?t + timeout_of delay, effect)]"
    "now (timers ?s') = ?t" "calls ?s' = calls s"
    using debounce_burst_armed [OF assms] by simp_all
  have "debounce_run (replicate (?t + timeout_of delay - now (timers ?s')) Tick @ [RunTimer]) ?s' =
    ?s'\<lparr>timers := (timers ?s')\<lparr>now := ?t + timeout_of delay, pending := []\<rparr>,
         calls := calls ?s' @ [(effect, ?t + timeout_of delay)]\<rparr>"
    using s' by (intro debounce_fire_due) simp_all
  then show ?thesis using s' by (simp add: debounce_run_append)
qed


lemma debounce_burst_witness:
  "calls (debounce_run (burst 5 [(1::nat, [JNum 1], [Tick, RunTimer, Tick])] @
      Render 2 5 [JNum 2] # replicate (timeout_of 5) Tick @ [RunTimer])
      (debounce_run [Render 0 5 [JNum 0]] (debounce_init :: (nat, unit) debounce_sys))) = [(2, 7)]"
proof -
  let ?s = "debounce_run [Render 0 5 [JNum 0]] (debounce_init :: (nat, unit) debounce_sys)"
  let ?hk = "\<lparr>callback_memo = \<lparr>memo_cb = 0::nat, memo_deps = [JNum 0 :: (nat, unit) jsval]\<rparr>,
              effect_deps = [JFun 0, JNum 5], handler = 1\<rparr>"
  have h1: "debounce_inv ?s" by (rule debounce_reach_inv [OF debounce_reach_run])
  have h2: "hook ?s = Some ?hk" by (simp only: debounce_demo_state) simp
  have h3: "rearm_chain ((memo_cb (callback_memo ?hk), memo_deps (callback_memo ?hk)) #
      map (\<lambda>(e, deps, gap). (e, deps)) [(1::nat, [JNum 1 :: (nat, unit) jsval], [Tick, RunTimer, Tick])] @
      [(2, [JNum 2])])"
    by simp
  have h4: "list_all (\<lambda>(e, deps, gap). quiet gap \<and> ticks gap < timeout_of 5)
      [(1::nat, [JNum 1 :: (nat, unit) jsval], [Tick, RunTimer, Tick])]"
    by (simp add: quiet_def ticks_def timeout_of_def to_int32_mod)
  show ?thesis using debounce_burst [OF h1 h2 h3 h4]
    by (simp only: debounce_demo_state) (simp add: ticks_def timeout_of_def to_int32_mod)
qed

text \<open>
  C5. A render with new dependencies and a new action cancels the pending timer before it
  schedules the new one: afterwards exactly one timer is pending, the new one, due a timeout
  from now and carrying the new action.
\<close>

theorem useDebounce_cancels_previous:
  assumes "debounce_inv s" and "hook s = Some hk"
    and "\<not> areHookInputsEqual deps (memo_deps (callback_memo hk))"
    and "effect \<noteq> memo_cb (callback_memo hk)"
  shows "pending (timers (useDebounce effect delay deps s)) =
           [(next_handle (timers s), now (timers s) + timeout_of delay, effect)]"
  by (simp add: useDebounce_rearm_state [OF assms])

lemma useDebounce_cancels_previous_witness:
  "pending (timers (useDebounce (1::nat) 5 [JNum 1]
     (debounce_run [Render 0 5 [JNum 0]] (debounce_init :: (nat, unit) debounce_sys)))) = [(2, 5, 1)]"
proof -
  let ?s = "debounce_run [Render 0 5 [JNum 0]] (debounce_init :: (nat, unit) debounce_sys)"
  let ?hk = "\<lparr>callback_memo = \<lparr>memo_cb = 0::nat, memo_deps = [JNum 0 :: (nat, unit) jsval]\<rparr>,
              effect_deps = [JFun 0, JNum 5], handler = 1\<rparr>"
  have h1: "debounce_inv ?s" by (rule debounce_reach_inv [OF debounce_reach_run])
  have h2: "hook ?s = Some ?hk" by (simp only: debounce_demo_state) simp
  have h3: "\<not> areHookInputsEqual [JNum 1 :: (nat, unit) jsval] (memo_deps (callback_memo ?hk))" by simp
  have h4: "(1::nat) \<noteq> memo_cb (callback_memo ?hk)" by simp
  show ?thesis using useDebounce_cancels_previous [OF h1 h2 h3 h4, of 5]
    by (simp only: debounce_demo_state) (simp add: timeout_of_def to_int32_mod)
qed

text \<open>
  C6. A render with dependencies equal to the memoised ones and the same delay changes nothing:
  the pending timer keeps running and keeps the action memoised earlier, even when the action
  passed now is a different function.
\<close>

theorem useDebounce_same_deps:
  assumes "debounce_inv s" and "hook s = Some hk"
    and "areHookInputsEqual deps (memo_deps (callback_memo hk))"
    and "effect_deps hk = [JFun (memo_cb (callback_memo hk)), JNum delay]"
  shows "useDebounce effect delay deps s = s"
proof -
  have "hk\<lparr>callback_memo := callback_memo hk, effect_deps := [JFun (memo_cb (callback_memo hk)), JNum delay]\<rparr> = hk"
    using assms(4) by simp
  moreover have "s\<lparr>hook := Some hk\<rparr> = s" using assms(2) by simp
  ultimately show ?thesis using assms(2-4)
    by (simp add: useDebounce_defs Let_def useCallback_equal effect_fires_def)
qed

lemma useDebounce_same_deps_witness:
  "useDebounce (7::nat) 5 [JNum 0] (debounce_run [Render 0 5 [JNum 0]] (debounce_init :: (nat, unit) debounce_sys)) =
     debounce_run [Render 0 5 [JNum 0]] (debounce_init :: (nat, unit) debounce_sys)"
proof -
  let ?s = "debounce_run [Render 0 5 [JNum 0]] (debounce_init :: (nat, unit) debounce_sys)"
  let ?hk = "\<lparr>callback_memo = \<lparr>memo_cb = 0::nat, memo_deps = [JNum 0 :: (nat, unit) jsval]\<rparr>,
              effect_deps = [JFun 0, JNum 5], handler = 1\<rparr>"
  have h1: "debounce_inv ?s" by (rule debounce_reach_inv [OF debounce_reach_run])
  have h2: "hook ?s = Some ?hk" by (simp only: debounce_demo_state) simp
  have h3: "areHookInputsEqual [JNum 0 :: (nat, unit) jsval] (memo_deps (callback_memo ?hk))" by simp
  have h4: "effect_deps ?hk = [JFun (memo_cb (callback_memo ?hk)), JNum 5]" by simp
  show ?thesis by (rule useDebounce_same_deps [OF h1 h2 h3 h4])
qed

text \<open>
  C7. No early call after a re-registration: a render with new dependencies and a new action,
  followed by any passing of time shorter than the timeout and any runs of the event loop,
  calls nothing: neither the new action, nor the action whose timer the render replaced.
\<close>

theorem debounce_no_early_call:
  assumes "debounce_inv s" and "hook s = Some hk"
    and "\<not> areHookInputsEqual deps (memo_deps (callback_memo hk))"
    and "effect \<noteq> memo_cb (callback_memo hk)"
    and "quiet evs" and "ticks evs < timeout_of delay"
  shows "calls (debounce_run (Render effect delay deps # evs) s) = calls s"
proof -
  let ?s1 = "useDebounce effect delay deps s"
  note s1 = useDebounce_rearm_state [OF assms(1-4)]
  have "list_all (\<lambda>(h, d, c). now (timers ?s1) + ticks evs < d) (pending (timers ?s1))"
    using assms(6) by (simp add: s1)
  from debounce_quiet_run [OF assms(5) this] show ?thesis by (simp add: s1)
qed

lemma debounce_no_early_call_witness:
  "calls (debounce_run (Render (1::nat) 5 [JNum 1] # [Tick, Tick, RunTimer, Tick, RunTimer])
     (debounce_run [Render (0::nat) 5 [JNum 0], Tick, Tick, Tick] (debounce_init :: (nat, unit) debounce_sys))) = []"
proof -
  let ?s = "debounce_run [Render (0::nat) 5 [JNum 0], Tick, Tick, Tick] (debounce_init :: (nat, unit) debounce_sys)"
  let ?hk = "\<lparr>callback_memo = \<lparr>memo_cb = 0::nat, memo_deps = [JNum 0 :: (nat, unit) jsval]\<rparr>,
              effect_deps = [JFun 0, JNum 5], handler = 1\<rparr>"
  let ?evs = "[Tick, Tick, RunTimer, Tick, RunTimer] :: (nat, unit) debounce_event list"
  have h1: "debounce_inv ?s" by (rule debounce_reach_inv [OF debounce_reach_run])
  have "?s = debounce_run [Tick, Tick, Tick] (debounce_run [Render (0::nat) 5 [JNum 0]] (debounce_init :: (nat, unit) debounce_sys))"
    by (simp only: debounce_run_append [symmetric] append.simps)
  also have "\<dots> = \<lparr>timers = \<lparr>now = 3, next_handle = 2, pending = [(1, 5, 0)]\<rparr>, hook = Some ?hk, calls = []\<rparr>"
    by (simp only: debounce_demo_state) (simp add: advance_def)
  finally have st: "?s = \<lparr>timers = \<lparr>now = 3, next_handle = 2, pending = [(1, 5, 0)]\<rparr>, hook = Some ?hk, calls = []\<rparr>" .
  have h2: "hook ?s = Some ?hk" unfolding st by simp
  have h3: "\<not> areHookInputsEqual [JNum 1 :: (nat, unit) jsval] (memo_deps (callback_memo ?hk))" by simp
  have h4: "(1::nat) \<noteq> memo_cb (callback_memo ?hk)" by simp
  have h5: "quiet ?evs" by (simp add: quiet_def)
  have h6: "ticks ?evs < timeout_of 5" by (simp add: ticks_def timeout_of_def to_int32_id)
  show ?thesis using debounce_no_early_call [OF h1 h2 h3 h4 h5 h6] unfolding st by simp
qed

text \<open>
  C8. A pending timer fires when its time comes: once time reaches its due time, the event
  loop calls the currently memoised action exactly once, at the due time, and nothing is left
  pending.
\<close>

theorem debounce_fires_once:
  assumes "debounce_inv s" and "hook s = Some hk"
    and "pending (timers s) = [(h, due, c)]" and "now (timers s) \<le> due"
  shows "calls (debounce_run (replicate (due - now (timers s)) Tick @ [RunTimer]) s) =
           calls s @ [(memo_cb (callback_memo hk), due)] \<and>
         pending (timers (debounce_run (replicate (due - now (timers s)) Tick @ [RunTimer]) s)) = []"
proof -
  from assms(1-3) have "c = memo_cb (callback_memo hk)" by (simp add: debounce_inv_def)
  with debounce_fire_due [OF assms(3,4)] show ?thesis by simp
qed

lemma debounce_fires_once_witness:
  "calls (debounce_run (replicate 5 Tick @ [RunTimer])
     (debounce_run [Render (0::nat) 5 [JNum 0]] (debounce_init :: (nat, unit) debounce_sys))) = [(0, 5)]"
proof -
  let ?s = "debounce_run [Render 0 5 [JNum 0]] (debounce_init :: (nat, unit) debounce_sys)"
  let ?hk = "\<lparr>callback_memo = \<lparr>memo_cb = 0::nat, memo_deps = [JNum 0 :: (nat, unit) jsval]\<rparr>,
              effect_deps = [JFun 0, JNum 5], handler = 1\<rparr>"
  have h1: "debounce_inv ?s" by (rule debounce_reach_inv [OF debounce_reach_run])
  have h2: "hook ?s = Some ?hk" by (simp only: debounce_demo_state) simp
  have h3: "pending (timers ?s) = [(1, 5, 0)]" by (simp only: debounce_demo_state) simp
  have h4: "now (timers ?s) \<le> 5" by (simp only: debounce_demo_state) simp
  show ?thesis using debounce_fires_once [OF h1 h2 h3 h4] by (simp only: debounce_demo_state) simp
qed

text \<open>
  C15. Boundary and wrap-around: a component that mounts with a delay in \<open>[-2^31, 0]\<close>, or
  with a delay in \<open>[2^31, 2^32)\<close>, which \<open>ToInt32\<close> wraps to a negative number, has its
  action called by the next run of the event loop, at the same instant, with no time passing.
\<close>

theorem debounce_nonpositive_delay:
  assumes "debounce_inv s" and "hook s = None"
    and "(- 2147483648 \<le> delay \<and> delay \<le> 0) \<or> (2147483648 \<le> delay \<and> delay < 4294967296)"
  shows "calls (debounce_run [Render effect delay deps, RunTimer] s) = calls s @ [(effect, now (timers s))]"
proof -
  have "to_int32 delay \<le> 0"
    using assms(3)
  proof
    assume "- 2147483648 \<le> delay \<and> delay \<le> 0"
    then show ?thesis by (simp add: to_int32_id)
  next
    assume r: "2147483648 \<le> delay \<and> delay < 4294967296"
    have "to_int32 delay = to_int32 ((delay - 4294967296) + 4294967296 * 1)" by simp
    also have "\<dots> = delay - 4294967296" using r by (simp only: to_int32_periodic) (simp add: to_int32_id)
    finally show ?thesis using r by simp
  qed
  then have t0: "timeout_of delay = 0" by (simp add: timeout_of_def)
  from assms(1,2) have p0: "pending (timers s) = []" by (simp add: debounce_inv_def)
  let ?s1 = "useDebounce effect delay deps s"
  have s1: "pending (timers ?s1) = [(next_handle (timers s), now (timers s), effect)]"
    "now (timers ?s1) = now (timers s)" "calls ?s1 = calls s"
    using useDebounce_mount_state [OF assms(2), of effect delay deps] p0 t0 by simp_all
  then have "run_next (timers ?s1) = Some (effect, (timers ?s1)\<lparr>pending := []\<rparr>)"
    using run_next_single [of "timers ?s1"] by simp
  with s1 show ?thesis by (simp add: debounce_run_timer_def)
qed

lemma debounce_nonpositive_delay_witness:
  "calls (debounce_run [Render (3::nat) (- 20) [JNum 0], RunTimer] (debounce_init :: (nat, unit) debounce_sys)) =
     [(3, 0)] \<and>
   calls (debounce_run [Render (4::nat) 2147483648 [JNum 0], RunTimer] (debounce_init :: (nat, unit) debounce_sys)) =
     [(4, 0)]"
proof -
  have h1: "debounce_inv (debounce_init :: (nat, unit) debounce_sys)" by (rule debounce_inv_init)
  have h2: "hook (debounce_init :: (nat, unit) debounce_sys) = None" by (simp add: debounce_init_def)
  have "(- 2147483648 \<le> (- 20 :: int) \<and> (- 20 :: int) \<le> 0) \<or>
        (2147483648 \<le> (- 20 :: int) \<and> (- 20 :: int) < 4294967296)" by simp
  from debounce_nonpositive_delay [OF h1 h2 this, of "3::nat" "[JNum 0]"]
  have "calls (debounce_run [Render (3::nat) (- 20) [JNum 0], RunTimer] (debounce_init :: (nat, unit) debounce_sys)) =
     [(3, 0)]" by (simp add: debounce_init_def timer_init_def)
  moreover have "(- 2147483648 \<le> (2147483648 :: int) \<and> (2147483648 :: int) \<le> 0) \<or>
        (2147483648 \<le> (2147483648 :: int) \<and> (2147483648 :: int) < 4294967296)" by simp
  from debounce_nonpositive_delay [OF h1 h2 this, of "4::nat" "[JNum 0]"]
  have "calls (debounce_run [Render (4::nat) 2147483648 [JNum 0], RunTimer] (debounce_init :: (nat, unit) debounce_sys)) =
     [(4, 0)]" by (simp add: debounce_init_def timer_init_def)
  ultimately show ?thesis ..
qed

end
