(* ===== verification/MultiDebounce.thy ===== *)
theory MultiDebounce
  imports Debounce
begin

text \<open>
  Several components of one page each calling \<open>useDebounce\<close> (\<open>src/useDebounce.ts\<close>).
  Each component has its own hook cells; the host's timer list and the log of calls are
  shared, as the window's timers are. Components are numbered; an event renders or
  unmounts one component, lets a millisecond pass, or lets the event loop run the next
  due timer, whichever component scheduled it. The theory shows that the components do
  not interfere: each one, looked at alone, behaves as the single-component model of
  \<open>Debounce\<close>. Besides the page's call log \<open>m_calls\<close>, the state records for each
  component the calls of the timers it owned when they ran (\<open>m_calls_of\<close>), an
  observation of the log by owner that no code reads.
\<close>

record ('f, 'v) multi_sys =
  m_timers :: "'f timer_host"
  m_hooks :: "nat \<Rightarrow> ('f, 'v) debounce_hook option"
  m_calls :: "('f \<times> ms) list"
  m_calls_of :: "nat \<Rightarrow> ('f \<times> ms) list"

datatype ('f, 'v) multi_event =
    MRender nat 'f int "('f, 'v) jsval list"
  | MUnmount nat
  | MTick
  | MRunTimer

definition multi_init :: "('f, 'v) multi_sys" where
  "multi_init = \<lparr>m_timers = timer_init, m_hooks = (\<lambda>_. None), m_calls = [], m_calls_of = (\<lambda>_. [])\<rparr>"

text \<open>Component \<open>i\<close> owns the timer its current effect scheduled.\<close>

definition owns :: "('f, 'v) multi_sys \<Rightarrow> nat \<Rightarrow> handle \<Rightarrow> bool" where
  "owns s i h \<longleftrightarrow> map_option handler (m_hooks s i) = Some h"

text \<open>The timer the event loop runs next is component \<open>i\<close>'s.\<close>

definition next_task_of :: "('f, 'v) multi_sys \<Rightarrow> nat \<Rightarrow> bool" where
  "next_task_of s i =
     (case next_due (now (m_timers s)) (pending (m_timers s)) of
        None \<Rightarrow> False
      | Some (h, _, _) \<Rightarrow> owns s i h)"

fun multi_step :: "('f, 'v) multi_event \<Rightarrow> ('f, 'v) multi_sys \<Rightarrow> ('f, 'v) multi_sys" where
  "multi_step (MRender i effect delay deps) s =
     (let r = useDebounce_cell effect delay deps (m_hooks s i) (m_timers s)
      in s\<lparr>m_timers := snd r, m_hooks := (m_hooks s)(i := fst r)\<rparr>)"
| "multi_step (MUnmount i) s =
     (case m_hooks s i of
        None \<Rightarrow> s
      | Some hk \<Rightarrow> s\<lparr>m_timers := debounce_cleanup hk (m_timers s), m_hooks := (m_hooks s)(i := None)\<rparr>)"
| "multi_step MTick s = s\<lparr>m_timers := advance (m_timers s)\<rparr>"
| "multi_step MRunTimer s =
     (case run_next (m_timers s) of
        None \<Rightarrow> s
      | Some (cb, tm) \<Rightarrow>
          s\<lparr>m_timers := tm, m_calls := m_calls s @ [(cb, now tm)],
            m_calls_of := (\<lambda>j. if next_task_of s j then m_calls_of s j @ [(cb, now tm)] else m_calls_of s j)\<rparr>)"

fun multi_run :: "('f, 'v) multi_event list \<Rightarrow> ('f, 'v) multi_sys \<Rightarrow> ('f, 'v) multi_sys" where
  "multi_run [] s = s"
| "multi_run (e # es) s = multi_run es (multi_step e s)"

section \<open>Ownership and the view of one component\<close>

definition owned :: "nat \<Rightarrow> ('f, 'v) multi_sys \<Rightarrow> (handle \<times> ms \<times> 'f) list" where
  "owned i s = filter (\<lambda>(h, _, _). owns s i h) (pending (m_timers s))"

text \<open>
  Component \<open>i\<close> alone: the shared clock and handle counter, its own cells, the timers
  it owns and the calls of its timers.
\<close>

definition multi_proj :: "nat \<Rightarrow> ('f, 'v) multi_sys \<Rightarrow> ('f, 'v) debounce_sys" where
  "multi_proj i s = \<lparr>timers = (m_timers s)\<lparr>pending := owned i s\<rparr>, hook = m_hooks s i, calls = m_calls_of s i\<rparr>"

text \<open>The events component \<open>i\<close> sees of a page event.\<close>

definition local_events :: "nat \<Rightarrow> ('f, 'v) multi_sys \<Rightarrow> ('f, 'v) multi_event \<Rightarrow> ('f, 'v) debounce_event list" where
  "local_events i s e =
     (case e of
        MRender j effect delay deps \<Rightarrow> if j = i then [Render effect delay deps] else []
      | MUnmount j \<Rightarrow> if j = i then [Unmount] else []
      | MTick \<Rightarrow> [Tick]
      | MRunTimer \<Rightarrow> if next_task_of s i then [RunTimer] else [])"

text \<open>What the single-component model shows of its state.\<close>

definition debounce_view ::
  "('f, 'v) debounce_sys \<Rightarrow> ms \<times> ('f, 'v) debounce_hook option \<times> (handle \<times> ms \<times> 'f) list \<times> ('f \<times> ms) list" where
  "debounce_view d = (now (timers d), hook d, pending (timers d), calls d)"

text \<open>The events component \<open>i\<close> sees along a run of the page.\<close>

fun local_trace :: "nat \<Rightarrow> ('f, 'v) multi_event list \<Rightarrow> ('f, 'v) multi_sys \<Rightarrow> ('f, 'v) debounce_event list" where
  "local_trace i [] s = []"
| "local_trace i (e # es) s = local_events i s e @ local_trace i es (multi_step e s)"

text \<open>
  The invariant of the page: the host's timers are well formed; every mounted component's
  effect dependencies match its memoised callback and its handler was issued; no handle is
  owned by two components; every pending timer is owned by a component and carries that
  component's memoised callback.
\<close>

definition multi_inv :: "('f, 'v) multi_sys \<Rightarrow> bool" where
  "multi_inv s \<longleftrightarrow>
     timers_wf (m_timers s) \<and>
     (\<forall>i hk. m_hooks s i = Some hk \<longrightarrow> cell_matches hk \<and> handler hk < next_handle (m_timers s)) \<and>
     (\<forall>i j h. owns s i h \<longrightarrow> owns s j h \<longrightarrow> i = j) \<and>
     list_all (\<lambda>(h, d, c). \<exists>i hk. m_hooks s i = Some hk \<and> handler hk = h \<and> c = memo_cb (callback_memo hk))
       (pending (m_timers s))"

section \<open>Lemmas\<close>

lemma owns_Some [simp]: "m_hooks s i = Some hk \<Longrightarrow> owns s i h \<longleftrightarrow> h = handler hk"
  by (auto simp: owns_def)

lemma owns_None [simp]: "m_hooks s i = None \<Longrightarrow> \<not> owns s i h"
  by (simp add: owns_def)

lemma multi_inv_init: "multi_inv multi_init"
  by (simp add: multi_inv_def multi_init_def owns_def timer_init_def timers_wf_def)

lemma multi_render_fires:
  assumes "useCallback effect deps (map_option callback_memo (m_hooks s i)) = (cb, memo)"
    and "effect_fires [JFun cb, JNum delay] (map_option effect_deps (m_hooks s i))"
  shows "multi_step (MRender i effect delay deps) s =
    s\<lparr>m_timers := (m_timers s)\<lparr>next_handle := Suc (next_handle (m_timers s)),
        pending := filter (\<lambda>(h', _, _). \<not> owns s i h') (pending (m_timers s)) @
                   [(next_handle (m_timers s), now (m_timers s) + timeout_of delay, cb)]\<rparr>,
      m_hooks := (m_hooks s)(i := Some \<lparr>callback_memo = memo, effect_deps = [JFun cb, JNum delay],
                                      handler = next_handle (m_timers s)\<rparr>)\<rparr>"
proof -
  have "filter (\<lambda>(h', _, _). Some h' \<noteq> map_option handler (m_hooks s i)) (pending (m_timers s)) =
        filter (\<lambda>(h', _, _). \<not> owns s i h') (pending (m_timers s))"
    by (cases "m_hooks s i") (auto simp: owns_def intro!: filter_cong)
  with useDebounce_cell_fires [OF assms, of "m_timers s"] show ?thesis by simp
qed

lemma multi_render_keeps:
  assumes "useCallback effect deps (map_option callback_memo (m_hooks s i)) = (cb, memo)"
    and "\<not> effect_fires [JFun cb, JNum delay] (map_option effect_deps (m_hooks s i))"
  shows "multi_step (MRender i effect delay deps) s =
    s\<lparr>m_hooks := (m_hooks s)(i := map_option (\<lambda>hk. hk\<lparr>callback_memo := memo,
                                   effect_deps := [JFun cb, JNum delay]\<rparr>) (m_hooks s i))\<rparr>"
  using useDebounce_cell_keeps [OF assms, of "m_timers s"] by simp


lemma multi_render_calls [simp]:
  "m_calls (multi_step (MRender i effect delay deps) s) = m_calls s"
  "m_calls_of (multi_step (MRender i effect delay deps) s) = m_calls_of s"
  by (simp_all add: Let_def)

lemma multi_unmount_calls [simp]:
  "m_calls (multi_step (MUnmount i) s) = m_calls s"
  "m_calls_of (multi_step (MUnmount i) s) = m_calls_of s"
  by (cases "m_hooks s i"; simp)+

declare multi_step.simps(1) [simp del]

lemma multi_render_owns_fires:
  assumes "useCallback effect deps (map_option callback_memo (m_hooks s i)) = (cb, memo)"
    and "effect_fires [JFun cb, JNum delay] (map_option effect_deps (m_hooks s i))"
  shows "owns (multi_step (MRender i effect delay deps) s) j h \<longleftrightarrow>
           (if j = i then h = next_handle (m_timers s) else owns s j h)"
  by (auto simp: multi_render_fires [OF assms] owns_def)

lemma multi_render_owns_keeps:
  assumes "useCallback effect deps (map_option callback_memo (m_hooks s i)) = (cb, memo)"
    and "\<not> effect_fires [JFun cb, JNum delay] (map_option effect_deps (m_hooks s i))"
  shows "owns (multi_step (MRender i effect delay deps) s) j h \<longleftrightarrow> owns s j h"
  by (cases "m_hooks s i") (auto simp: multi_render_keeps [OF assms] owns_def)

lemma multi_unmount_owns:
  "owns (multi_step (MUnmount i) s) j h \<longleftrightarrow> j \<noteq> i \<and> owns s j h"
  by (cases "m_hooks s i") (auto simp: owns_def)

lemma multi_inv_owner:
  assumes "multi_inv s" and "m_hooks s i = Some hk" and "(h, d, c) \<in> set (pending (m_timers s))"
    and "h = handler hk"
  shows "c = memo_cb (callback_memo hk)"
proof -
  from assms(1,3) obtain j hj where j: "m_hooks s j = Some hj" "handler hj = h"
    and c: "c = memo_cb (callback_memo hj)"
    by (fastforce simp: multi_inv_def list_all_iff)
  from assms(1,2,4) j have "j = i" unfolding multi_inv_def by (metis owns_Some)
  with j assms(2) c show ?thesis by simp
qed

lemma multi_render_inv:
  assumes inv: "multi_inv s"
  shows "multi_inv (multi_step (MRender i effect delay deps) s)"
proof -
  obtain cb memo where cbm: "useCallback effect deps (map_option callback_memo (m_hooks s i)) = (cb, memo)"
    by fastforce
  have memo: "memo_cb memo = cb"
    using useCallback_memo [of effect deps "map_option callback_memo (m_hooks s i)"] cbm by simp
  let ?nh = "next_handle (m_timers s)"
  from inv have wf: "timers_wf (m_timers s)"
    and hooks: "\<And>j hk. m_hooks s j = Some hk \<Longrightarrow> cell_matches hk \<and> handler hk < ?nh"
    and uniq: "\<And>j j' h. owns s j h \<Longrightarrow> owns s j' h \<Longrightarrow> j = j'"
    and own: "list_all (\<lambda>(h, d, c). \<exists>j hk. m_hooks s j = Some hk \<and> handler hk = h \<and> c = memo_cb (callback_memo hk))
       (pending (m_timers s))"
    by (auto simp: multi_inv_def)
  have below: "\<And>j h. owns s j h \<Longrightarrow> h < ?nh"
    using hooks by (auto simp: owns_def)
  show ?thesis
  proof (cases "effect_fires [JFun cb, JNum delay] (map_option effect_deps (m_hooks s i))")
    case True
    note step = multi_render_fires [OF cbm True] and ow = multi_render_owns_fires [OF cbm True]
    have "timers_wf (m_timers (multi_step (MRender i effect delay deps) s))"
      using wf by (auto simp: step timers_wf_def list_all_iff distinct_map_filter)
    moreover have "\<forall>j hk. m_hooks (multi_step (MRender i effect delay deps) s) j = Some hk \<longrightarrow>
        cell_matches hk \<and> handler hk < next_handle (m_timers (multi_step (MRender i effect delay deps) s))"
      using hooks memo by (auto simp: step cell_matches_def less_SucI)
    moreover have "\<forall>j j' h. owns (multi_step (MRender i effect delay deps) s) j h \<longrightarrow>
        owns (multi_step (MRender i effect delay deps) s) j' h \<longrightarrow> j = j'"
      using uniq below by (auto simp: ow) (metis less_irrefl)+
    moreover have "\<exists>j hk. m_hooks (multi_step (MRender i effect delay deps) s) j = Some hk \<and>
        handler hk = h \<and> c = memo_cb (callback_memo hk)"
      if "(h, d, c) \<in> set (pending (m_timers (multi_step (MRender i effect delay deps) s)))" for h d c
    proof -
      from that consider (old) "(h, d, c) \<in> set (pending (m_timers s))" "\<not> owns s i h"
        | (new) "h = ?nh" "c = cb"
        by (auto simp: step)
      then show ?thesis
      proof cases
        case old
        from own old(1) obtain j hk where "m_hooks s j = Some hk" "handler hk = h"
            "c = memo_cb (callback_memo hk)"
          by (fastforce simp: list_all_iff)
        moreover from this old(2) have "j \<noteq> i" by auto
        ultimately show ?thesis by (intro exI [of _ j] exI [of _ hk]) (simp add: step)
      next
        case new
        then show ?thesis using memo by (intro exI [of _ i]) (simp add: step)
      qed
    qed
    ultimately show ?thesis unfolding multi_inv_def list_all_iff by fast
  next
    case False
    note step = multi_render_keeps [OF cbm False] and ow = multi_render_owns_keeps [OF cbm False]
    from False obtain hk where hk: "m_hooks s i = Some hk"
      by (cases "m_hooks s i") (simp_all add: effect_fires_def)
    from hooks [OF hk] obtain d0 where ed: "effect_deps hk = [JFun (memo_cb (callback_memo hk)), JNum d0]"
      by (auto simp: cell_matches_iff)
    with False hk have same: "cb = memo_cb (callback_memo hk)"
      by (simp add: effect_fires_def)
    have "\<forall>j hk'. m_hooks (multi_step (MRender i effect delay deps) s) j = Some hk' \<longrightarrow>
        cell_matches hk' \<and> handler hk' < next_handle (m_timers (multi_step (MRender i effect delay deps) s))"
      using hooks hk memo by (auto simp: step cell_matches_def)
    moreover have "\<exists>j hk'. m_hooks (multi_step (MRender i effect delay deps) s) j = Some hk' \<and>
        handler hk' = h \<and> c = memo_cb (callback_memo hk')"
      if "(h, d, c) \<in> set (pending (m_timers (multi_step (MRender i effect delay deps) s)))" for h d c
    proof -
      from own that obtain j hj where j: "m_hooks s j = Some hj" "handler hj = h"
          "c = memo_cb (callback_memo hj)"
        by (fastforce simp: list_all_iff step)
      show ?thesis
      proof (cases "j = i")
        case True
        with j hk memo same show ?thesis by (intro exI [of _ i]) (auto simp: step)
      next
        case False
        with j show ?thesis by (intro exI [of _ j] exI [of _ hj]) (simp add: step)
      qed
    qed
    moreover have "timers_wf (m_timers (multi_step (MRender i effect delay deps) s))"
      using wf by (simp add: step)
    moreover have "\<forall>j j' h. owns (multi_step (MRender i effect delay deps) s) j h \<longrightarrow>
        owns (multi_step (MRender i effect delay deps) s) j' h \<longrightarrow> j = j'"
      using uniq by (simp add: ow)
    ultimately show ?thesis unfolding multi_inv_def list_all_iff by fast
  qed
qed


lemma multi_unmount_inv:
  assumes inv: "multi_inv s"
  shows "multi_inv (multi_step (MUnmount i) s)"
proof (cases "m_hooks s i")
  case None
  with inv show ?thesis by simp
next
  case (Some hk)
  let ?s' = "multi_step (MUnmount i) s"
  have step: "?s' = s\<lparr>m_timers := clearTimeout (handler hk) (m_timers s), m_hooks := (m_hooks s)(i := None)\<rparr>"
    using Some by (simp add: debounce_cleanup_def)
  from inv have own: "list_all (\<lambda>(h, d, c). \<exists>j hk. m_hooks s j = Some hk \<and> handler hk = h \<and> c = memo_cb (callback_memo hk))
       (pending (m_timers s))"
    by (simp add: multi_inv_def)
  have "\<exists>j hj. m_hooks ?s' j = Some hj \<and> handler hj = h \<and> c = memo_cb (callback_memo hj)"
    if "(h, d, c) \<in> set (pending (m_timers ?s'))" for h d c
  proof -
    from that have "(h, d, c) \<in> set (pending (m_timers s))" and ne: "h \<noteq> handler hk"
      unfolding step by simp_all
    with own obtain j hj where j: "m_hooks s j = Some hj" "handler hj = h" "c = memo_cb (callback_memo hj)"
      by (fastforce simp: list_all_iff)
    with ne Some have "j \<noteq> i" by auto
    with j show ?thesis unfolding step by (intro exI [of _ j] exI [of _ hj]) simp
  qed
  moreover have "timers_wf (m_timers ?s')"
    using inv unfolding step by (simp add: multi_inv_def clearTimeout_wf)
  moreover have "\<forall>j hj. m_hooks ?s' j = Some hj \<longrightarrow> cell_matches hj \<and> handler hj < next_handle (m_timers ?s')"
    using inv unfolding step by (simp add: multi_inv_def)
  moreover have "\<forall>j j' h. owns ?s' j h \<longrightarrow> owns ?s' j' h \<longrightarrow> j = j'"
    using inv unfolding multi_unmount_owns multi_inv_def by blast
  ultimately show ?thesis unfolding multi_inv_def list_all_iff by fast
qed

lemma multi_run_timer_inv:
  assumes inv: "multi_inv s"
  shows "multi_inv (multi_step MRunTimer s)"
proof (cases "run_next (m_timers s)")
  case None
  with inv show ?thesis by simp
next
  case (Some r)
  obtain cb tm where r: "r = (cb, tm)" by fastforce
  with Some obtain h where tm: "tm = clearTimeout h (m_timers s)" by (auto dest: run_next_Some)
  from inv Some r have "timers_wf tm" by (auto simp: multi_inv_def intro: run_next_wf)
  with inv Some r tm show ?thesis
    by (auto simp: multi_inv_def owns_def list_all_iff)
qed

lemma multi_tick_inv: "multi_inv s \<Longrightarrow> multi_inv (multi_step MTick s)"
  by (simp add: multi_inv_def owns_def advance_wf)

lemma multi_step_inv: "multi_inv s \<Longrightarrow> multi_inv (multi_step e s)"
  by (cases e) (blast intro: multi_render_inv multi_unmount_inv multi_run_timer_inv multi_tick_inv)+

lemma multi_run_inv_pres: "multi_inv s \<Longrightarrow> multi_inv (multi_run es s)"
  by (induction es arbitrary: s) (simp_all add: multi_step_inv)

lemma multi_run_append: "multi_run (xs @ ys) s = multi_run ys (multi_run xs s)"
  by (induction xs arbitrary: s) simp_all


section \<open>Each component alone\<close>

lemma multi_proj_view [simp]:
  "debounce_view (multi_proj i s) = (now (m_timers s), m_hooks s i, owned i s, m_calls_of s i)"
  by (simp add: debounce_view_def multi_proj_def)

lemma multi_inv_proj:
  assumes inv: "multi_inv s"
  shows "debounce_inv (multi_proj i s)"
proof -
  from inv have wf: "timers_wf (m_timers s)" by (simp add: multi_inv_def)
  then have "timers_wf ((m_timers s)\<lparr>pending := owned i s\<rparr>)"
    by (auto simp: timers_wf_def owned_def list_all_iff distinct_map_filter)
  moreover have "list_all (\<lambda>(h, d, c). h = handler hk \<and> c = memo_cb (callback_memo hk)) (owned i s)"
    if hk: "m_hooks s i = Some hk" for hk
    using multi_inv_owner [OF inv hk] hk by (auto simp: owned_def list_all_iff)
  moreover have "cell_matches hk" if "m_hooks s i = Some hk" for hk
    using inv that by (simp add: multi_inv_def)
  ultimately show ?thesis
    by (cases "m_hooks s i") (simp_all add: debounce_inv_def multi_proj_def owned_def)
qed

lemma multi_owned_length:
  assumes "multi_inv s"
  shows "length (owned i s) \<le> 1"
  using debounce_inv_pending [OF multi_inv_proj [OF assms, of i]] by (simp add: multi_proj_def)

lemma multi_inv_below:
  "multi_inv s \<Longrightarrow> owns s j h \<Longrightarrow> h < next_handle (m_timers s)"
  by (auto simp: multi_inv_def owns_def)

lemma multi_inv_pending_below:
  "multi_inv s \<Longrightarrow> (h, d, c) \<in> set (pending (m_timers s)) \<Longrightarrow> h < next_handle (m_timers s)"
  by (auto simp: multi_inv_def timers_wf_def list_all_iff)

lemma multi_inv_uniq:
  "multi_inv s \<Longrightarrow> owns s i h \<Longrightarrow> owns s j h \<Longrightarrow> i = j"
  by (simp add: multi_inv_def)

lemma multi_render_other:
  assumes inv: "multi_inv s" and ne: "j \<noteq> i"
  shows "m_hooks (multi_step (MRender j effect delay deps) s) i = m_hooks s i \<and>
         owned i (multi_step (MRender j effect delay deps) s) = owned i s \<and>
         now (m_timers (multi_step (MRender j effect delay deps) s)) = now (m_timers s)"
proof -
  obtain cb memo where cbm: "useCallback effect deps (map_option callback_memo (m_hooks s j)) = (cb, memo)"
    by fastforce
  show ?thesis
  proof (cases "effect_fires [JFun cb, JNum delay] (map_option effect_deps (m_hooks s j))")
    case True
    have "filter (\<lambda>(h, _, _). owns s i h) (filter (\<lambda>(h', _, _). \<not> owns s j h') (pending (m_timers s))) =
          filter (\<lambda>(h, _, _). owns s i h) (pending (m_timers s))"
      using multi_inv_uniq [OF inv] ne by (intro filter_absorb) blast
    moreover have "\<not> owns s i (next_handle (m_timers s))"
      using multi_inv_below [OF inv] by blast
    ultimately show ?thesis using ne
      unfolding owned_def multi_render_owns_fires [OF cbm True] by (simp add: multi_render_fires [OF cbm True])
  next
    case False
    then show ?thesis using ne
      unfolding owned_def multi_render_owns_keeps [OF cbm False] by (simp add: multi_render_keeps [OF cbm False])
  qed
qed


lemma multi_render_self:
  assumes inv: "multi_inv s"
  shows "debounce_view (multi_proj i (multi_step (MRender i effect delay deps) s)) =
         debounce_view (useDebounce effect delay deps (multi_proj i s))"
proof -
  obtain cb memo where cbm: "useCallback effect deps (map_option callback_memo (m_hooks s i)) = (cb, memo)"
    by fastforce
  have cbm': "useCallback effect deps (map_option callback_memo (hook (multi_proj i s))) = (cb, memo)"
    using cbm by (simp add: multi_proj_def)
  show ?thesis
  proof (cases "effect_fires [JFun cb, JNum delay] (map_option effect_deps (m_hooks s i))")
    case True
    then have fires: "effect_fires [JFun cb, JNum delay] (map_option effect_deps (hook (multi_proj i s)))"
      by (simp add: multi_proj_def)
    have "filter (\<lambda>(h, _, _). h = next_handle (m_timers s))
            (filter (\<lambda>(h', _, _). \<not> owns s i h') (pending (m_timers s))) = []"
      using multi_inv_pending_below [OF inv] by (auto simp: filter_empty_conv)
    then have "owned i (multi_step (MRender i effect delay deps) s) =
        [(next_handle (m_timers s), now (m_timers s) + timeout_of delay, cb)]"
      unfolding owned_def multi_render_owns_fires [OF cbm True]
      by (simp add: multi_render_fires [OF cbm True])
    moreover have "filter (\<lambda>(h', _, _). Some h' \<noteq> map_option handler (m_hooks s i)) (owned i s) = []"
      by (auto simp: owned_def owns_def filter_empty_conv)
    ultimately show ?thesis
      by (simp add: multi_render_fires [OF cbm True] useDebounce_def useDebounce_cell_fires [OF cbm' fires]
          debounce_view_def, simp add: multi_proj_def)
  next
    case False
    then have keeps: "\<not> effect_fires [JFun cb, JNum delay] (map_option effect_deps (hook (multi_proj i s)))"
      by (simp add: multi_proj_def)
    have "owned i (multi_step (MRender i effect delay deps) s) = owned i s"
      unfolding owned_def multi_render_owns_keeps [OF cbm False]
      by (simp add: multi_render_keeps [OF cbm False])
    then show ?thesis
      by (simp add: multi_render_keeps [OF cbm False] useDebounce_def useDebounce_cell_keeps [OF cbm' keeps]
          debounce_view_def, simp add: multi_proj_def)
  qed
qed


lemma multi_unmount_other:
  assumes inv: "multi_inv s" and ne: "j \<noteq> i"
  shows "m_hooks (multi_step (MUnmount j) s) i = m_hooks s i \<and>
         owned i (multi_step (MUnmount j) s) = owned i s \<and>
         m_calls_of (multi_step (MUnmount j) s) i = m_calls_of s i \<and>
         now (m_timers (multi_step (MUnmount j) s)) = now (m_timers s)"
proof (cases "m_hooks s j")
  case None
  then show ?thesis by simp
next
  case (Some hj)
  have "filter (\<lambda>(h, _, _). owns s i h) (filter (\<lambda>(h', _, _). h' \<noteq> handler hj) (pending (m_timers s))) =
        filter (\<lambda>(h, _, _). owns s i h) (pending (m_timers s))"
    using multi_inv_uniq [OF inv, of i _ j] ne Some by (intro filter_absorb) auto
  then show ?thesis using ne Some
    unfolding owned_def multi_unmount_owns by (simp add: debounce_cleanup_def)
qed

lemma multi_unmount_self:
  "debounce_view (multi_proj i (multi_step (MUnmount i) s)) =
   debounce_view (debounce_unmount (multi_proj i s))"
proof (cases "m_hooks s i")
  case None
  then show ?thesis by (simp add: debounce_unmount_def multi_proj_def)
next
  case (Some hk)
  have "owned i (multi_step (MUnmount i) s) = []"
    unfolding owned_def multi_unmount_owns by simp
  moreover have "filter (\<lambda>(h', _, _). h' \<noteq> handler hk) (owned i s) = []"
    using Some by (auto simp: owned_def filter_empty_conv)
  ultimately show ?thesis using Some
    by (simp add: debounce_unmount_def debounce_cleanup_def debounce_view_def multi_proj_def)
qed

lemma multi_run_timer_step:
  assumes "next_due (now (m_timers s)) (pending (m_timers s)) = Some (h, d, c)"
  shows "multi_step MRunTimer s =
      s\<lparr>m_timers := clearTimeout h (m_timers s), m_calls := m_calls s @ [(c, now (m_timers s))],
        m_calls_of := (\<lambda>j. if owns s j h then m_calls_of s j @ [(c, now (m_timers s))] else m_calls_of s j)\<rparr>"
  using assms by (simp add: run_next_def next_task_of_def fun_eq_iff)

lemma multi_run_timer_owned:
  assumes inv: "multi_inv s"
    and nd: "next_due (now (m_timers s)) (pending (m_timers s)) = Some (h, d, c)"
  shows "owned i (multi_step MRunTimer s) = (if owns s i h then [] else owned i s) \<and>
         (owns s i h \<longrightarrow> owned i s = [(h, d, c)])"
proof (cases "owns s i h")
  case True
  have due: "(h, d, c) \<in> set (pending (m_timers s))" using next_due_Some [OF nd] by simp
  have "owned i s = [(h, d, c)]"
    using length_le_1_member [OF multi_owned_length [OF inv]] due True by (simp add: owned_def)
  moreover have "owned i (multi_step MRunTimer s) = []"
    unfolding multi_run_timer_step [OF nd] using True multi_inv_uniq [OF inv]
    by (auto simp: owned_def owns_def filter_empty_conv)
  ultimately show ?thesis using True by simp
next
  case False
  have "filter (\<lambda>(h', _, _). owns s i h') (filter (\<lambda>(h', _, _). h' \<noteq> h) (pending (m_timers s))) =
        filter (\<lambda>(h', _, _). owns s i h') (pending (m_timers s))"
    using False by (intro filter_absorb) auto
  then have "owned i (multi_step MRunTimer s) = owned i s"
    unfolding multi_run_timer_step [OF nd] by (simp add: owned_def owns_def)
  with False show ?thesis by simp
qed

lemma multi_run_timer_view:
  assumes inv: "multi_inv s"
  shows "debounce_view (multi_proj i (multi_step MRunTimer s)) =
         debounce_view (debounce_run (local_events i s MRunTimer) (multi_proj i s))"
proof (cases "next_due (now (m_timers s)) (pending (m_timers s))")
  case None
  then have "run_next (m_timers s) = None" by (simp add: run_next_def)
  with None show ?thesis by (simp add: local_events_def next_task_of_def)
next
  case (Some x)
  obtain h d c where x: "x = (h, d, c)" by (cases x)
  note nd = Some [unfolded x]
  note step = multi_run_timer_step [OF nd] and own = multi_run_timer_owned [OF inv nd, of i]
  show ?thesis
  proof (cases "owns s i h")
    case True
    with own have own1: "owned i s = [(h, d, c)]" by simp
    have "run_next (timers (multi_proj i s)) = Some (c, (timers (multi_proj i s))\<lparr>pending := []\<rparr>)"
      using run_next_single [of "timers (multi_proj i s)" h d c] own1 next_due_Some [OF nd]
      by (simp add: multi_proj_def)
    then show ?thesis using nd True own unfolding step
      by (simp add: local_events_def next_task_of_def debounce_run_timer_def debounce_view_def,
          simp add: multi_proj_def)
  next
    case False
    then show ?thesis using nd own unfolding step by (simp add: local_events_def next_task_of_def)
  qed
qed

lemma multi_step_refines:
  assumes inv: "multi_inv s"
  shows "debounce_view (multi_proj i (multi_step e s)) =
         debounce_view (debounce_run (local_events i s e) (multi_proj i s))"
proof (cases e)
  case (MRender j effect delay deps)
  then show ?thesis
    using multi_render_self [OF inv] multi_render_other [OF inv, of j i effect delay deps]
    by (cases "j = i") (simp_all add: local_events_def)
next
  case (MUnmount j)
  then show ?thesis
    using multi_unmount_self [of i s] multi_unmount_other [OF inv, of j i]
    by (cases "j = i") (simp_all add: local_events_def)
next
  case MTick
  then show ?thesis by (simp add: local_events_def owned_def owns_def multi_proj_def debounce_view_def)
next
  case MRunTimer
  then show ?thesis using multi_run_timer_view [OF inv] by simp
qed


lemma debounce_view_obs:
  "debounce_view a = debounce_view b \<Longrightarrow> debounce_obs a = debounce_obs b"
  by (simp add: debounce_view_def debounce_obs_def debounce_hview_def)

lemma multi_run_refines:
  assumes "multi_inv s" and "debounce_inv d" and "debounce_obs (multi_proj i s) = debounce_obs d"
  shows "debounce_obs (multi_proj i (multi_run es s)) = debounce_obs (debounce_run (local_trace i es s) d)"
  using assms
proof (induction es arbitrary: s d)
  case Nil
  then show ?case by simp
next
  case (Cons e es)
  let ?d' = "debounce_run (local_events i s e) d"
  have "debounce_obs (multi_proj i (multi_step e s)) =
        debounce_obs (debounce_run (local_events i s e) (multi_proj i s))"
    by (rule debounce_view_obs [OF multi_step_refines [OF Cons.prems(1)]])
  also have "\<dots> = debounce_obs ?d'"
    by (rule debounce_run_obs [OF multi_inv_proj [OF Cons.prems(1)] Cons.prems(2,3)])
  finally have "debounce_obs (multi_proj i (multi_step e s)) = debounce_obs ?d'" .
  with Cons.IH [OF multi_step_inv [OF Cons.prems(1)] debounce_run_inv_pres [OF Cons.prems(2)]]
  show ?case by (simp add: debounce_run_append)
qed

lemma multi_reach_inv: "multi_inv (multi_run es multi_init)"
  by (rule multi_run_inv_pres [OF multi_inv_init])

section \<open>Properties\<close>

text \<open>
  C9. Components do not interfere: on every run of a page with any number of components
  using \<open>useDebounce\<close> and sharing the host's timers, each component's clock, hook cells,
  pending timers and the calls its timers made are, up to the names of timer handles, those of
  the single-component model run on the events that component sees (its own renders and
  unmount, the passing of time, and the event loop running its own timers).
\<close>

theorem multi_refines_single:
  "debounce_obs (multi_proj i (multi_run es multi_init)) =
   debounce_obs (debounce_run (local_trace i es multi_init) debounce_init)"
proof (rule multi_run_refines [OF multi_inv_init debounce_inv_init])
  show "debounce_obs (multi_proj i multi_init) = debounce_obs debounce_init"
    by (simp add: debounce_obs_def debounce_hview_def multi_proj_def multi_init_def debounce_init_def owned_def owns_def
        timer_init_def)
qed

text \<open>
  C10. A render or the unmount of one component leaves every other component's hook cells
  and pending timer untouched: the cleanup of one effect never cancels another component's
  timer, and a new \<open>setTimeout\<close> never lands in another component's cell.
\<close>

theorem multi_isolation:
  assumes "multi_inv s" and "j \<noteq> i"
  shows "m_hooks (multi_step (MRender j effect delay deps) s) i = m_hooks s i \<and>
         owned i (multi_step (MRender j effect delay deps) s) = owned i s \<and>
         m_hooks (multi_step (MUnmount j) s) i = m_hooks s i \<and>
         owned i (multi_step (MUnmount j) s) = owned i s"
  using multi_render_other [OF assms, of effect delay deps] multi_unmount_other [OF assms] by simp

lemma multi_isolation_witness:
  "m_hooks (multi_step (MRender 1 (1::nat) 5 [JNum 1])
      (multi_run [MRender 0 0 5 [JNum 0]] (multi_init :: (nat, unit) multi_sys))) 0 =
     m_hooks (multi_run [MRender 0 0 5 [JNum 0]] (multi_init :: (nat, unit) multi_sys)) 0 \<and>
   owned 0 (multi_step (MRender 1 (1::nat) 5 [JNum 1])
      (multi_run [MRender 0 0 5 [JNum 0]] (multi_init :: (nat, unit) multi_sys))) =
     owned 0 (multi_run [MRender 0 0 5 [JNum 0]] (multi_init :: (nat, unit) multi_sys))"
proof -
  have h: "(1::nat) \<noteq> 0" by simp
  have inv: "multi_inv (multi_run [MRender 0 0 5 [JNum 0]] (multi_init :: (nat, unit) multi_sys))"
    by (rule multi_reach_inv)
  show ?thesis using multi_isolation [OF inv h, where effect = 1 and delay = 5 and deps = "[JNum 1]"]
    by simp
qed

text \<open>
  C11. On every run of the page each component has at most one pending timer, and every
  pending timer belongs to a mounted component: no timer outlives the component that
  scheduled it.
\<close>

theorem multi_timers_owned:
  "length (owned i (multi_run es multi_init)) \<le> 1 \<and>
   list_all (\<lambda>(h, d, c). \<exists>j. owns (multi_run es multi_init) j h) (pending (m_timers (multi_run es multi_init)))"
proof -
  have inv: "multi_inv (multi_run es multi_init)" by (rule multi_reach_inv)
  then have "list_all (\<lambda>(h, d, c). \<exists>j hk. m_hooks (multi_run es multi_init) j = Some hk \<and> handler hk = h \<and>
      c = memo_cb (callback_memo hk)) (pending (m_timers (multi_run es multi_init)))"
    by (simp add: multi_inv_def)
  then have "list_all (\<lambda>(h, d, c). \<exists>j. owns (multi_run es multi_init) j h) (pending (m_timers (multi_run es multi_init)))"
    by (fastforce simp: list_all_iff owns_def)
  with multi_owned_length [OF inv] show ?thesis by simp
qed

end
