(* ===== verification/MultiLiveness.thy ===== *)
theory MultiLiveness
  imports MultiDebounce "HOL-Library.Multiset"
begin

text \<open>
  Progress of the page of \<open>MultiDebounce\<close>: time passes and the event loop runs due
  timers, and every pending timer of every component runs, once, and its call is logged
  for the component that scheduled it. The argument is the usual one for an eventuality:
  each run of the event loop takes one timer off the host's list, so the number of pending
  timers is the distance to the goal. The theory also accounts for the page's log of calls:
  it is, as a multiset, the sum of the logs credited to the components, and each
  component's log is a subsequence of it, so the event loop neither loses, duplicates nor
  misattributes a call.
\<close>

section \<open>Lemmas\<close>

lemma length_filter_key:
  "distinct (map fst xs) \<Longrightarrow> (a, b) \<in> set xs \<Longrightarrow> length (filter (\<lambda>x. fst x \<noteq> a) xs) = length xs - 1"
proof (induction xs)
  case Nil
  then show ?case by simp
next
  case (Cons x xs)
  show ?case
  proof (cases "fst x = a")
    case True
    with Cons.prems have "\<forall>y \<in> set xs. fst y \<noteq> a" by (auto simp: image_iff)
    with True show ?thesis by (simp add: filter_id_conv)
  next
    case False
    with Cons have "length (filter (\<lambda>x. fst x \<noteq> a) xs) = length xs - 1" by force
    moreover from False Cons.prems have "xs \<noteq> []" by auto
    ultimately show ?thesis using False by simp
  qed
qed

lemma clearTimeout_length:
  assumes "timers_wf t" and "(h, d, c) \<in> set (pending t)"
  shows "length (pending (clearTimeout h t)) = length (pending t) - 1"
proof -
  have "distinct (map fst (pending t))" using assms(1) by (simp add: timers_wf_def)
  then have "length (filter (\<lambda>x. fst x \<noteq> h) (pending t)) = length (pending t) - 1"
    using assms(2) by (rule length_filter_key)
  moreover have "filter (\<lambda>(h', _, _). h' \<noteq> h) (pending t) = filter (\<lambda>x. fst x \<noteq> h) (pending t)"
    by (simp add: split_def)
  ultimately show ?thesis by simp
qed

lemma all_due_next:
  assumes "pending t \<noteq> []" and "list_all (\<lambda>(h, d, c). d \<le> now t) (pending t)"
  obtains h d c where "next_due (now t) (pending t) = Some (h, d, c)"
proof -
  from assms have "next_due (now t) (pending t) \<noteq> None"
    by (cases "pending t") (auto simp: next_due_None_iff)
  then show ?thesis using that by fastforce
qed

lemma multi_run_ticks:
  "multi_run (replicate k MTick) s = s\<lparr>m_timers := (m_timers s)\<lparr>now := now (m_timers s) + k\<rparr>\<rparr>"
  by (induction k arbitrary: s) (simp_all add: advance_def)

text \<open>One run of the event loop with all timers due: the timer it takes is logged for its owner.\<close>

lemma multi_fire_one:
  assumes inv: "multi_inv s"
    and due: "list_all (\<lambda>(h, d, c). d \<le> now (m_timers s)) (pending (m_timers s))"
    and ne: "pending (m_timers s) \<noteq> []"
  defines "s' \<equiv> multi_step MRunTimer s"
  shows "length (pending (m_timers s')) = length (pending (m_timers s)) - 1 \<and>
         now (m_timers s') = now (m_timers s) \<and>
         list_all (\<lambda>(h, d, c). d \<le> now (m_timers s')) (pending (m_timers s')) \<and>
         (\<forall>i. m_calls_of s i @ map (\<lambda>(h, d, c). (c, now (m_timers s))) (owned i s) =
              m_calls_of s' i @ map (\<lambda>(h, d, c). (c, now (m_timers s))) (owned i s'))"
proof -
  obtain h d c where nd: "next_due (now (m_timers s)) (pending (m_timers s)) = Some (h, d, c)"
    using all_due_next [OF ne due] .
  note step = multi_run_timer_step [OF nd]
  have mem: "(h, d, c) \<in> set (pending (m_timers s))" using next_due_Some [OF nd] by simp
  have wf: "timers_wf (m_timers s)" using inv by (simp add: multi_inv_def)
  have "m_calls_of s i @ map (\<lambda>(h, d, c). (c, now (m_timers s))) (owned i s) =
        m_calls_of s' i @ map (\<lambda>(h, d, c). (c, now (m_timers s))) (owned i s')" for i
    using multi_run_timer_owned [OF inv nd, of i] unfolding s'_def step by simp
  then show ?thesis
    using clearTimeout_length [OF wf mem] due unfolding s'_def step by (auto simp: list_all_iff)
qed

lemma multi_fire_all:
  assumes "multi_inv s" and "list_all (\<lambda>(h, d, c). d \<le> now (m_timers s)) (pending (m_timers s))"
    and "length (pending (m_timers s)) = n"
  shows "pending (m_timers (multi_run (replicate n MRunTimer) s)) = [] \<and>
         (\<forall>i. m_calls_of (multi_run (replicate n MRunTimer) s) i =
              m_calls_of s i @ map (\<lambda>(h, d, c). (c, now (m_timers s))) (owned i s))"
  using assms
proof (induction n arbitrary: s)
  case 0
  then show ?case by (simp add: owned_def)
next
  case (Suc n)
  then have ne: "pending (m_timers s) \<noteq> []" by auto
  let ?s' = "multi_step MRunTimer s"
  note one = multi_fire_one [OF Suc.prems(1,2) ne]
  then have len: "length (pending (m_timers ?s')) = n" using Suc.prems(3) by (simp del: multi_step.simps)
  from one have nw: "now (m_timers ?s') = now (m_timers s)"
    and due: "list_all (\<lambda>(h, d, c). d \<le> now (m_timers ?s')) (pending (m_timers ?s'))"
    and calls: "\<And>i. m_calls_of s i @ map (\<lambda>(h, d, c). (c, now (m_timers s))) (owned i s) =
         m_calls_of ?s' i @ map (\<lambda>(h, d, c). (c, now (m_timers s))) (owned i ?s')"
    by blast+
  have "multi_inv ?s'" by (rule multi_step_inv [OF Suc.prems(1)])
  from Suc.IH [OF this due len] nw calls show ?case by (simp del: multi_step.simps)
qed

text \<open>Components of a page are numbered below \<open>N\<close>: every render names one of them.\<close>

lemma sum_mset_snoc:
  assumes "j < (N::nat)"
  shows "(\<Sum>i<N. mset (if i = j then f j @ [x] else f i)) = add_mset x (\<Sum>i<N. mset (f i))"
proof -
  have "(\<Sum>i<N. mset (if i = j then f j @ [x] else f i)) =
        (\<Sum>i<N. mset (f i) + (if i = j then {#x#} else 0))"
    by (rule sum.cong) auto
  also have "\<dots> = (\<Sum>i<N. mset (f i)) + (\<Sum>i<N. if i = j then {#x#} else 0)"
    by (rule sum.distrib)
  also have "(\<Sum>i<N. if i = j then {#x#} else 0) = {#x#}"
    using assms by (subst sum.delta) auto
  finally show ?thesis by simp
qed

lemma multi_step_calls:
  assumes inv: "multi_inv s" and hi: "\<forall>i\<ge>N. m_hooks s i = None"
    and ev: "case e of MRender i _ _ _ \<Rightarrow> i < N | _ \<Rightarrow> True"
  shows "(\<forall>i\<ge>N. m_hooks (multi_step e s) i = None) \<and>
         ((m_calls (multi_step e s) = m_calls s \<and> m_calls_of (multi_step e s) = m_calls_of s) \<or>
          (\<exists>j x. j < N \<and> m_calls (multi_step e s) = m_calls s @ [x] \<and>
                 m_calls_of (multi_step e s) = (m_calls_of s)(j := m_calls_of s j @ [x])))"
proof (cases e)
  case (MRender i effect delay deps)
  with ev hi multi_render_other [OF inv, of i] show ?thesis by auto
next
  case (MUnmount i)
  with hi multi_unmount_other [OF inv, of i] show ?thesis by (cases "m_hooks s i") auto
next
  case MTick
  with hi show ?thesis by simp
next
  case MRunTimer
  show ?thesis
  proof (cases "next_due (now (m_timers s)) (pending (m_timers s))")
    case None
    then have "run_next (m_timers s) = None" by (simp add: run_next_def)
    with MRunTimer hi show ?thesis by simp
  next
    case (Some t)
    obtain h d c where t: "t = (h, d, c)" by (cases t)
    note nd = Some [unfolded t]
    from inv next_due_Some [OF nd] obtain j hk where hk: "m_hooks s j = Some hk" "handler hk = h"
      by (fastforce simp: multi_inv_def list_all_iff)
    with hi have "j < N" by (metis not_le option.distinct(1))
    moreover have "owns s i h \<longleftrightarrow> i = j" for i
      using hk multi_inv_uniq [OF inv, of i h j] by auto
    ultimately show ?thesis using hi
      unfolding MRunTimer multi_run_timer_step [OF nd] by (auto simp: fun_eq_iff)
  qed
qed

lemma multi_accounting_run:
  assumes "multi_inv s" and "\<forall>i\<ge>N. m_hooks s i = None \<and> m_calls_of s i = []"
    and "mset (m_calls s) = (\<Sum>i<N. mset (m_calls_of s i))" and "\<forall>i. subseq (m_calls_of s i) (m_calls s)"
    and "list_all (\<lambda>e. case e of MRender i _ _ _ \<Rightarrow> i < N | _ \<Rightarrow> True) es"
  shows "(\<forall>i\<ge>N. m_calls_of (multi_run es s) i = []) \<and>
         mset (m_calls (multi_run es s)) = (\<Sum>i<N. mset (m_calls_of (multi_run es s) i)) \<and>
         (\<forall>i. subseq (m_calls_of (multi_run es s) i) (m_calls (multi_run es s)))"
  using assms
proof (induction es arbitrary: s)
  case Nil
  then show ?case by simp
next
  case (Cons e es)
  let ?s' = "multi_step e s"
  have hi: "\<forall>i\<ge>N. m_hooks s i = None" using Cons.prems(2) by blast
  from Cons.prems(5) have ev: "case e of MRender i _ _ _ \<Rightarrow> i < N | _ \<Rightarrow> True" by simp
  have "(\<forall>i\<ge>N. m_hooks ?s' i = None \<and> m_calls_of ?s' i = []) \<and>
        mset (m_calls ?s') = (\<Sum>i<N. mset (m_calls_of ?s' i)) \<and> (\<forall>i. subseq (m_calls_of ?s' i) (m_calls ?s'))"
    using multi_step_calls [OF Cons.prems(1) hi ev]
  proof (elim conjE disjE exE)
    fix j x
    assume "\<forall>i\<ge>N. m_hooks ?s' i = None" "j < N" "m_calls ?s' = m_calls s @ [x]"
      "m_calls_of ?s' = (m_calls_of s)(j := m_calls_of s j @ [x])"
    with Cons.prems(2-4) show ?thesis
      by (simp add: sum_mset_snoc subseq_rev_drop_many del: multi_step.simps)
  qed (use Cons.prems(2-4) in \<open>simp del: multi_step.simps\<close>)
  with Cons.IH [OF multi_step_inv [OF Cons.prems(1)]] Cons.prems(5) show ?case
    by (simp del: multi_step.simps)
qed

lemma multi_ticks_owned:
  "owned i (multi_run (replicate k MTick) s) = owned i s"
  by (simp add: multi_run_ticks owned_def owns_def)

text \<open>From a state of the invariant, time up to the last deadline, then one run per timer.\<close>

lemma multi_fire_after_deadline:
  assumes "multi_inv s"
    and "list_all (\<lambda>(h, d, c). d \<le> now (m_timers s) + k) (pending (m_timers s))"
  shows "pending (m_timers (multi_run (replicate k MTick @ replicate (length (pending (m_timers s))) MRunTimer) s)) = [] \<and>
         (\<forall>i. m_calls_of (multi_run (replicate k MTick @ replicate (length (pending (m_timers s))) MRunTimer) s) i =
              m_calls_of s i @ map (\<lambda>(h, d, c). (c, now (m_timers s) + k)) (owned i s))"
proof -
  let ?s1 = "multi_run (replicate k MTick) s"
  have "multi_inv ?s1" by (rule multi_run_inv_pres [OF assms(1)])
  moreover have "list_all (\<lambda>(h, d, c). d \<le> now (m_timers ?s1)) (pending (m_timers ?s1))"
    using assms(2) by (simp add: multi_run_ticks)
  moreover have "length (pending (m_timers ?s1)) = length (pending (m_timers s))"
    by (simp add: multi_run_ticks)
  ultimately have "pending (m_timers (multi_run (replicate (length (pending (m_timers s))) MRunTimer) ?s1)) = [] \<and>
      (\<forall>i. m_calls_of (multi_run (replicate (length (pending (m_timers s))) MRunTimer) ?s1) i =
         m_calls_of ?s1 i @ map (\<lambda>(h, d, c). (c, now (m_timers ?s1))) (owned i ?s1))"
    by (rule multi_fire_all)
  then show ?thesis by (simp add: multi_run_append multi_ticks_owned, simp add: multi_run_ticks)
qed

lemma multi_step_calls_prefix: "\<exists>new. m_calls (multi_step e s) = m_calls s @ new"
  by (cases e) (auto split: option.splits)

lemma multi_run_calls_prefix: "\<exists>new. m_calls (multi_run es s) = m_calls s @ new"
proof (induction es arbitrary: s)
  case Nil
  then show ?case by simp
next
  case (Cons e es)
  from multi_step_calls_prefix [of e s] Cons.IH [of "multi_step e s"] show ?case
    by (auto simp del: multi_step.simps)
qed

section \<open>Properties\<close>

text \<open>
  C13. Every timer runs, and it runs the current action of its component: on every run of a page
  whose renders name components below \<open>N\<close>, once time has passed up to the latest deadline
  of the pending timers, as many runs of the event loop as there are pending timers empty the
  host's list; the calls they add to the page's log are, as a multiset, exactly the memoised
  actions of the timers the components own, stamped with the time they ran, and each
  component's log gains exactly the call of its own timer. No stale timer left by a render or
  an unmount runs.
\<close>

theorem multi_every_timer_fires:
  assumes "list_all (\<lambda>e. case e of MRender i _ _ _ \<Rightarrow> i < N | _ \<Rightarrow> True) es"
    and "list_all (\<lambda>(h, d, c). d \<le> now (m_timers (multi_run es multi_init)) + k)
           (pending (m_timers (multi_run es multi_init)))"
  shows "pending (m_timers (multi_run (es @ replicate k MTick @
            replicate (length (pending (m_timers (multi_run es multi_init)))) MRunTimer) multi_init)) = [] \<and>
         (\<exists>new. m_calls (multi_run (es @ replicate k MTick @
            replicate (length (pending (m_timers (multi_run es multi_init)))) MRunTimer) multi_init) =
              m_calls (multi_run es multi_init) @ new \<and>
            mset new = (\<Sum>i<N. mset (map (\<lambda>(h, d, c). (c, now (m_timers (multi_run es multi_init)) + k))
                                        (owned i (multi_run es multi_init))))) \<and>
         (\<forall>i. m_calls_of (multi_run (es @ replicate k MTick @
            replicate (length (pending (m_timers (multi_run es multi_init)))) MRunTimer) multi_init) i =
              m_calls_of (multi_run es multi_init) i @
                map (\<lambda>(h, d, c). (c, now (m_timers (multi_run es multi_init)) + k)) (owned i (multi_run es multi_init)))"
proof -
  let ?S = "multi_run es multi_init"
  let ?fs = "replicate k MTick @ replicate (length (pending (m_timers ?S))) MRunTimer"
  let ?F = "multi_run ?fs ?S"
  let ?f = "\<lambda>(h, d, c). (c, now (m_timers ?S) + k)"
  have run: "multi_run (es @ ?fs) multi_init = ?F" by (rule multi_run_append)
  have fire: "pending (m_timers ?F) = [] \<and> (\<forall>i. m_calls_of ?F i = m_calls_of ?S i @ map ?f (owned i ?S))"
    by (rule multi_fire_after_deadline [OF multi_reach_inv assms(2)])
  have init: "\<forall>i\<ge>N. m_hooks multi_init i = None \<and> m_calls_of multi_init i = []"
    "mset (m_calls multi_init) = (\<Sum>i<N. mset (m_calls_of (multi_init :: ('a, 'b) multi_sys) i))"
    "\<forall>i. subseq (m_calls_of multi_init i) (m_calls (multi_init :: ('a, 'b) multi_sys))"
    by (simp_all add: multi_init_def)
  have "list_all (\<lambda>e. case e of MRender i _ _ _ \<Rightarrow> i < N | _ \<Rightarrow> True) (es @ ?fs)"
    using assms(1) by (simp add: list_all_iff set_replicate_conv_if)
  from multi_accounting_run [OF multi_inv_init init this]
  have accF: "mset (m_calls ?F) = (\<Sum>i<N. mset (m_calls_of ?F i))" by (simp only: run)
  from multi_accounting_run [OF multi_inv_init init assms(1)]
  have accS: "mset (m_calls ?S) = (\<Sum>i<N. mset (m_calls_of ?S i))" by blast
  obtain new where new: "m_calls ?F = m_calls ?S @ new" using multi_run_calls_prefix by blast
  have "mset (m_calls ?S) + mset new = mset (m_calls ?S) + (\<Sum>i<N. mset (map ?f (owned i ?S)))"
    using accF accS fire by (simp add: new sum.distrib)
  then have "mset new = (\<Sum>i<N. mset (map ?f (owned i ?S)))" by simp
  with new fire run show ?thesis by auto
qed

lemma multi_every_timer_fires_witness:
  "pending (m_timers (multi_run ([MRender 0 0 5 [JNum 0], MRender 1 1 3 [JNum 1]] @ replicate 5 MTick @
      [MRunTimer, MRunTimer]) (multi_init :: (nat, unit) multi_sys))) = [] \<and>
   mset (m_calls (multi_run ([MRender 0 0 5 [JNum 0], MRender 1 1 3 [JNum 1]] @ replicate 5 MTick @
      [MRunTimer, MRunTimer]) (multi_init :: (nat, unit) multi_sys))) = {#(0, 5), (1, 5)#} \<and>
   m_calls_of (multi_run ([MRender 0 0 5 [JNum 0], MRender 1 1 3 [JNum 1]] @ replicate 5 MTick @
      [MRunTimer, MRunTimer]) (multi_init :: (nat, unit) multi_sys)) 0 = [(0, 5)]"
proof -
  let ?es = "[MRender 0 0 5 [JNum 0], MRender 1 1 3 [JNum 1]] :: (nat, unit) multi_event list"
  let ?s = "multi_run ?es multi_init"
  have tm: "m_timers ?s = \<lparr>now = 0, next_handle = 3, pending = [(1, 5, 0), (2, 3, 1)]\<rparr>"
    and hk: "map_option handler (m_hooks ?s 0) = Some 1" "map_option handler (m_hooks ?s 1) = Some 2"
    and cl: "m_calls_of ?s = (\<lambda>_. [])" "m_calls ?s = []"
    by (simp_all add: multi_step.simps(1) useDebounce_cell_def useCallback_def effect_fires_def setTimeout_def
        multi_init_def timer_init_def timeout_of_def to_int32_id)
  have h1: "list_all (\<lambda>e. case e of MRender i _ _ _ \<Rightarrow> i < 2 | _ \<Rightarrow> True) ?es" by simp
  have h2: "list_all (\<lambda>(h, d, c). d \<le> now (m_timers ?s) + 5) (pending (m_timers ?s))"
    unfolding tm by simp
  have own: "owned 0 ?s = [(1, 5, 0)]" "owned 1 ?s = [(2, 3, 1)]"
    unfolding owned_def owns_def hk tm by simp_all
  have len: "length (pending (m_timers ?s)) = 2" unfolding tm by simp
  have two: "\<And>F. (\<Sum>i<(2::nat). F i) = F 0 + (F 1 :: (nat \<times> nat) multiset)"
    by (simp add: numeral_2_eq_2)
  have sum2: "(\<Sum>i<2. mset (map (\<lambda>(h, d, c). (c, now (m_timers ?s) + 5)) (owned i ?s))) = {#(0, 5), (1, 5)#}"
    unfolding two own tm by simp
  let ?F = "multi_run (?es @ replicate 5 MTick @ [MRunTimer, MRunTimer]) multi_init"
  have rep2: "replicate 2 MRunTimer = [MRunTimer, MRunTimer :: (nat, unit) multi_event]"
    by (simp add: numeral_2_eq_2)
  note th = multi_every_timer_fires [OF h1 h2, unfolded len rep2]
  from th have p: "pending (m_timers ?F) = []" by blast
  from th obtain new where "m_calls ?F = m_calls ?s @ new"
    and "mset new = (\<Sum>i<2. mset (map (\<lambda>(h, d, c). (c, now (m_timers ?s) + 5)) (owned i ?s)))"
    by blast
  then have m: "mset (m_calls ?F) = {#(0, 5), (1, 5)#}" unfolding sum2 cl by simp
  from th have "m_calls_of ?F 0 = m_calls_of ?s 0 @ map (\<lambda>(h, d, c). (c, now (m_timers ?s) + 5)) (owned 0 ?s)"
    by blast
  then have c: "m_calls_of ?F 0 = [(0, 5)]" unfolding cl own tm by simp
  from p m c show ?thesis by blast
qed

text \<open>
  C14. The page's log of calls is exactly the union of the components' logs: on every run
  of a page whose renders name components below \<open>N\<close>, the multiset of calls the event
  loop made is the sum of the calls credited to each component, each component's calls
  appear in the page's log in the order they were made, and no call is credited to a
  component that was never rendered.
\<close>

theorem multi_calls_accounted:
  assumes "list_all (\<lambda>e. case e of MRender i _ _ _ \<Rightarrow> i < N | _ \<Rightarrow> True) es"
  shows "mset (m_calls (multi_run es multi_init)) = (\<Sum>i<N. mset (m_calls_of (multi_run es multi_init) i)) \<and>
         (\<forall>i. subseq (m_calls_of (multi_run es multi_init) i) (m_calls (multi_run es multi_init))) \<and>
         (\<forall>i\<ge>N. m_calls_of (multi_run es multi_init) i = [])"
proof -
  have "\<forall>i\<ge>N. m_hooks multi_init i = None \<and> m_calls_of multi_init i = []"
    and "mset (m_calls multi_init) = (\<Sum>i<N. mset (m_calls_of (multi_init :: ('a, 'b) multi_sys) i))"
    and "\<forall>i. subseq (m_calls_of multi_init i) (m_calls (multi_init :: ('a, 'b) multi_sys))"
    by (simp_all add: multi_init_def)
  with multi_accounting_run [OF multi_inv_init _ _ _ assms] show ?thesis by blast
qed

lemma multi_calls_accounted_witness:
  "list_all (\<lambda>e. case e of MRender i _ _ _ \<Rightarrow> i < 2 | _ \<Rightarrow> True)
     ([MRender 0 0 5 [JNum 0], MRender 1 1 3 [JNum 1]] @ replicate 5 MTick @ [MRunTimer, MRunTimer] ::
        (nat, unit) multi_event list) \<and>
   mset (m_calls (multi_run ([MRender 0 0 5 [JNum 0], MRender 1 1 3 [JNum 1]] @ replicate 5 MTick @ [MRunTimer, MRunTimer])
      (multi_init :: (nat, unit) multi_sys))) =
   (\<Sum>i<2. mset (m_calls_of (multi_run ([MRender 0 0 5 [JNum 0], MRender 1 1 3 [JNum 1]] @ replicate 5 MTick @
      [MRunTimer, MRunTimer]) (multi_init :: (nat, unit) multi_sys)) i))"
proof -
  have h: "list_all (\<lambda>e. case e of MRender i _ _ _ \<Rightarrow> i < 2 | _ \<Rightarrow> True)
     ([MRender 0 0 5 [JNum 0], MRender 1 1 3 [JNum 1]] @ replicate 5 MTick @ [MRunTimer, MRunTimer] ::
        (nat, unit) multi_event list)"
    by (simp add: numeral_eq_Suc)
  show ?thesis using h multi_calls_accounted [OF h] by blast
qed

end
