(* ===== verification/ReactCommit.thy ===== *)
theory ReactCommit
  imports MultiDebounce
begin

text \<open>
  React's commit of one render pass over several components using \<open>useDebounce\<close>
  (\<open>src/useDebounce.ts\<close>). The render phase evaluates each component's hooks on the state
  before the commit (\<open>useCallback\<close>, line 8, and the comparison of the effect's
  dependencies \<open>[callback, delay]\<close>, line 18); the commit then runs the cleanups
  (lines 15--17) of every effect that re-runs, in all components, before it runs any
  effect's setup (lines 10--14), as React's passive-effect phases do. The theory shows that
  this gives the page the step-by-step model of \<open>MultiDebounce\<close> gives, when each
  component renders at most once in the pass.
\<close>

type_synonym ('f, 'v) render_req = "nat \<times> 'f \<times> int \<times> ('f, 'v) jsval list"

text \<open>The render phase of one component: the callback, the new memo cell, and whether the
  effect re-runs.\<close>

definition render_plan ::
  "('f, 'v) multi_sys \<Rightarrow> ('f, 'v) render_req \<Rightarrow> 'f \<times> ('f, ('f, 'v) jsval) callback_cell \<times> bool" where
  "render_plan s r =
     (case r of (i, effect, delay, deps) \<Rightarrow>
        (let (cb, memo) = useCallback effect deps (map_option callback_memo (m_hooks s i))
         in (cb, memo, effect_fires [JFun cb, JNum delay] (map_option effect_deps (m_hooks s i)))))"

text \<open>The passive unmount phase for one component: the previous run's cleanup.\<close>

definition commit_destroy :: "('f, 'v) multi_sys \<Rightarrow> ('f, 'v) render_req \<Rightarrow> 'f timer_host \<Rightarrow> 'f timer_host" where
  "commit_destroy s r tm =
     (case m_hooks s (fst r) of
        None \<Rightarrow> tm
      | Some hk \<Rightarrow> if snd (snd (render_plan s r)) then debounce_cleanup hk tm else tm)"

text \<open>The passive mount phase for one component: the effect's setup \<open>setTimeout\<close>, or, when
  the effect does not re-run, only the new memo cell.\<close>

definition commit_create ::
  "('f, 'v) multi_sys \<Rightarrow> ('f, 'v) render_req \<Rightarrow> ('f, 'v) multi_sys \<Rightarrow> ('f, 'v) multi_sys" where
  "commit_create s0 r s =
     (case r of (i, effect, delay, deps) \<Rightarrow>
        (case render_plan s0 r of (cb, memo, fires) \<Rightarrow>
           if fires then
             (let h = setTimeout cb delay (m_timers s)
              in s\<lparr>m_timers := snd h,
                   m_hooks := (m_hooks s)(i := Some \<lparr>callback_memo = memo,
                                 effect_deps = [JFun cb, JNum delay], handler = fst h\<rparr>)\<rparr>)
           else
             s\<lparr>m_hooks := (m_hooks s)(i := map_option (\<lambda>hk. hk\<lparr>callback_memo := memo,
                                 effect_deps := [JFun cb, JNum delay]\<rparr>) (m_hooks s0 i))\<rparr>))"

text \<open>The commit: all destroys, then all creates, in the order of the components.\<close>

definition react_commit :: "('f, 'v) render_req list \<Rightarrow> ('f, 'v) multi_sys \<Rightarrow> ('f, 'v) multi_sys" where
  "react_commit rs s = fold (commit_create s) rs (s\<lparr>m_timers := fold (commit_destroy s) rs (m_timers s)\<rparr>)"

definition render_event :: "('f, 'v) render_req \<Rightarrow> ('f, 'v) multi_event" where
  "render_event r = (case r of (i, effect, delay, deps) \<Rightarrow> MRender i effect delay deps)"

section \<open>Lemmas\<close>

lemma render_event_simp [simp]: "render_event (i, effect, delay, deps) = MRender i effect delay deps"
  by (simp add: render_event_def)

lemma commit_destroy_fields [simp]:
  "next_handle (commit_destroy s r tm) = next_handle tm"
  "now (commit_destroy s r tm) = now tm"
  by (simp_all add: commit_destroy_def debounce_cleanup_def split: option.splits)

lemma fold_commit_destroy_fields [simp]:
  "next_handle (fold (commit_destroy s) rs tm) = next_handle tm"
  "now (fold (commit_destroy s) rs tm) = now tm"
  by (induction rs arbitrary: tm) simp_all

lemma fold_commit_destroy_setTimeout:
  assumes "\<forall>r \<in> set rs. \<forall>hk. m_hooks s (fst r) = Some hk \<longrightarrow> handler hk \<noteq> next_handle tm"
  shows "fold (commit_destroy s) rs (snd (setTimeout cb delay tm)) =
         snd (setTimeout cb delay (fold (commit_destroy s) rs tm))"
  using assms
proof (induction rs arbitrary: tm)
  case Nil
  then show ?case by simp
next
  case (Cons r rs)
  have "commit_destroy s r (snd (setTimeout cb delay tm)) = snd (setTimeout cb delay (commit_destroy s r tm))"
    using Cons.prems
    by (auto simp: commit_destroy_def debounce_cleanup_def clearTimeout_setTimeout_commute split: option.splits)
  with Cons.IH [of "commit_destroy s r tm"] Cons.prems show ?case by simp
qed

lemma multi_render_hooks_other:
  "j \<noteq> i \<Longrightarrow> m_hooks (multi_step (MRender i effect delay deps) s) j = m_hooks s j"
  by (simp add: multi_step.simps(1) Let_def)

lemma commit_cong:
  assumes "m_hooks s0 (fst r) = m_hooks s1 (fst r)"
  shows "commit_destroy s0 r = commit_destroy s1 r" and "commit_create s0 r = commit_create s1 r"
proof -
  obtain i e d ds where r: "r = (i, e, d, ds)" by (cases r) auto
  with assms have h: "m_hooks s0 i = m_hooks s1 i" by simp
  then have p: "render_plan s0 (i, e, d, ds) = render_plan s1 (i, e, d, ds)" by (simp add: render_plan_def)
  show "commit_destroy s0 r = commit_destroy s1 r"
    by (intro ext) (simp add: commit_destroy_def p h r split: option.split)
  show "commit_create s0 r = commit_create s1 r"
    by (intro ext) (simp only: commit_create_def p h r prod.case)
qed

lemma commit_cong_other:
  assumes "fst r \<noteq> i"
  shows "commit_destroy (multi_step (MRender i effect delay deps) s) r = commit_destroy s r"
    and "commit_create (multi_step (MRender i effect delay deps) s) r = commit_create s r"
  using commit_cong [OF multi_render_hooks_other [OF assms]] by simp_all

lemma multi_inv_handler_below:
  "multi_inv s \<Longrightarrow> m_hooks s j = Some hk \<Longrightarrow> handler hk < next_handle (m_timers s)"
  by (simp add: multi_inv_def)

lemma commit_head:
  assumes inv: "multi_inv s" and notin: "i \<notin> fst ` set rs"
  shows "commit_create s (i, effect, delay, deps)
           (s\<lparr>m_timers := fold (commit_destroy s) rs (commit_destroy s (i, effect, delay, deps) (m_timers s))\<rparr>) =
         (multi_step (MRender i effect delay deps) s)\<lparr>m_timers :=
           fold (commit_destroy s) rs (m_timers (multi_step (MRender i effect delay deps) s))\<rparr>"
proof -
  obtain cb memo where cbm: "useCallback effect deps (map_option callback_memo (m_hooks s i)) = (cb, memo)"
    by fastforce
  let ?fires = "effect_fires [JFun cb, JNum delay] (map_option effect_deps (m_hooks s i))"
  let ?tm1 = "commit_destroy s (i, effect, delay, deps) (m_timers s)"
  have plan: "render_plan s (i, effect, delay, deps) = (cb, memo, ?fires)"
    by (simp add: render_plan_def cbm)
  show ?thesis
  proof (cases ?fires)
    case True
    have tm1: "?tm1 = (m_timers s)\<lparr>pending := filter (\<lambda>(h', _, _). \<not> owns s i h') (pending (m_timers s))\<rparr>"
      using True by (cases "m_hooks s i")
        (simp_all add: commit_destroy_def plan debounce_cleanup_def clearTimeout_def)
    have ms: "multi_step (MRender i effect delay deps) s =
        s\<lparr>m_timers := snd (setTimeout cb delay ?tm1),
          m_hooks := (m_hooks s)(i := Some \<lparr>callback_memo = memo, effect_deps = [JFun cb, JNum delay],
                                          handler = fst (setTimeout cb delay ?tm1)\<rparr>)\<rparr>"
      unfolding multi_render_fires [OF cbm True] tm1 by (simp add: setTimeout_def)
    have "\<forall>r \<in> set rs. \<forall>hk. m_hooks s (fst r) = Some hk \<longrightarrow> handler hk \<noteq> next_handle ?tm1"
      using multi_inv_handler_below [OF inv] by fastforce
    from fold_commit_destroy_setTimeout [OF this, of cb delay]
    show ?thesis using True
      by (simp add: ms commit_create_def plan Let_def setTimeout_def)
  next
    case False
    have tm1: "?tm1 = m_timers s"
      using False by (cases "m_hooks s i") (simp_all add: commit_destroy_def plan)
    have ms: "multi_step (MRender i effect delay deps) s =
        s\<lparr>m_hooks := (m_hooks s)(i := map_option (\<lambda>hk. hk\<lparr>callback_memo := memo,
                                   effect_deps := [JFun cb, JNum delay]\<rparr>) (m_hooks s i))\<rparr>"
      by (rule multi_render_keeps [OF cbm False])
    show ?thesis using False by (simp add: ms tm1 commit_create_def plan)
  qed
qed

lemma react_commit_Nil [simp]: "react_commit [] s = s"
  by (simp add: react_commit_def)

lemma react_commit_Cons:
  assumes inv: "multi_inv s" and notin: "i \<notin> fst ` set rs"
  shows "react_commit ((i, effect, delay, deps) # rs) s =
         react_commit rs (multi_step (MRender i effect delay deps) s)"
proof -
  let ?r = "(i, effect, delay, deps)"
  let ?s' = "multi_step (MRender i effect delay deps) s"
  have d: "fold (commit_destroy ?s') rs = fold (commit_destroy s) rs"
    and c: "fold (commit_create ?s') rs = fold (commit_create s) rs"
    using notin by (auto intro!: fold_cong commit_cong_other)
  have "react_commit (?r # rs) s =
        fold (commit_create s) rs (commit_create s ?r
          (s\<lparr>m_timers := fold (commit_destroy s) rs (commit_destroy s ?r (m_timers s))\<rparr>))"
    by (simp add: react_commit_def)
  also have "\<dots> = fold (commit_create s) rs (?s'\<lparr>m_timers := fold (commit_destroy s) rs (m_timers ?s')\<rparr>)"
    by (simp only: commit_head [OF inv notin])
  also have "\<dots> = react_commit rs ?s'"
    by (simp add: react_commit_def d c)
  finally show ?thesis .
qed

section \<open>Properties\<close>

text \<open>
  C12. React's commit of a render pass, which runs the effect cleanups of all components
  before any effect setup, leaves the page (timers, hook cells, calls) exactly as rendering the
  components one after the other, cleanup then setup for each, when no component renders twice
  in the pass: the order React interleaves the phases in is not observable.
\<close>

theorem react_commit_sequential:
  assumes "multi_inv s" and "distinct (map fst rs)"
  shows "react_commit rs s = multi_run (map render_event rs) s"
  using assms
proof (induction rs arbitrary: s)
  case Nil
  then show ?case by simp
next
  case (Cons r rs)
  obtain i effect delay deps where r: "r = (i, effect, delay, deps)" by (cases r) auto
  from Cons.prems(2) r have notin: "i \<notin> fst ` set rs" and d: "distinct (map fst rs)" by auto
  have "react_commit (r # rs) s = react_commit rs (multi_step (MRender i effect delay deps) s)"
    unfolding r by (rule react_commit_Cons [OF Cons.prems(1) notin])
  also have "\<dots> = multi_run (map render_event rs) (multi_step (MRender i effect delay deps) s)"
    by (rule Cons.IH [OF multi_step_inv [OF Cons.prems(1)] d])
  finally show ?case by (simp add: r)
qed

lemma react_commit_sequential_witness:
  "react_commit [(0, 1, 5, [JNum 1]), (1, 2, 5, [JNum 2])]
      (multi_run [MRender 0 0 5 [JNum 0], MRender 1 0 5 [JNum 0]] (multi_init :: (nat, unit) multi_sys)) =
   multi_run (map render_event [(0, 1, 5, [JNum 1]), (1, 2, 5, [JNum 2])])
      (multi_run [MRender 0 0 5 [JNum 0], MRender 1 0 5 [JNum 0]] (multi_init :: (nat, unit) multi_sys))"
proof -
  have h1: "multi_inv (multi_run [MRender 0 0 5 [JNum 0], MRender 1 0 5 [JNum 0]] (multi_init :: (nat, unit) multi_sys))"
    by (rule multi_reach_inv)
  have h2: "distinct (map fst [(0::nat, 1::nat, 5::int, [JNum 1 :: (nat, unit) jsval]), (1, 2, 5, [JNum 2])])"
    by simp
  show ?thesis by (rule react_commit_sequential [OF h1 h2])
qed

end
