(* ===== verification/DeviceDetect.thy ===== *)
theory DeviceDetect
  imports Prelude
begin

text \<open>
  Model of \<open>src/useDeviceDetect.ts\<close>: the result interface \<open>IGetDevice\<close>, the
  case-insensitive regular-expression tests of \<open>getDevice\<close> (a literal alternation searched
  at every position of the user-agent string, as \<open>String.prototype.match\<close> does), and the
  hook \<open>useDeviceDetect\<close> with the \<open>useIsClient\<close> hook it calls, as a sequence of
  render/commit cycles. The regex search is proved equal to the declarative
  "some alternative is a substring up to case" of \<open>HOL-Library.Sublist\<close>.
\<close>

section \<open>The result record\<close>

record IGetDevice =
  isMobile :: bool
  isDesktop :: bool
  isAndroid :: bool
  isIos :: bool
  isSSR :: bool

section \<open>Case-insensitive literal regular expressions\<close>

text \<open>
  \<open>prefix_ci p s\<close>: the literal \<open>p\<close> matches at the start of \<open>s\<close> under the \<open>i\<close> flag,
  character by character through \<open>js_canon\<close>.
\<close>

fun prefix_ci :: "string \<Rightarrow> string \<Rightarrow> bool" where
  "prefix_ci [] s = True"
| "prefix_ci (p # ps) [] = False"
| "prefix_ci (p # ps) (c # cs) = (js_canon p = js_canon c \<and> prefix_ci ps cs)"

text \<open>
  \<open>regex_match alts s\<close>: \<open>Boolean(s.match(/a1|a2|.../i))\<close>. The matcher tries every start
  index from left to right and, at each, the alternatives in order; a match exists iff some
  alternative matches at some index (the empty input has only index 0).
\<close>

fun regex_match :: "string list \<Rightarrow> string \<Rightarrow> bool" where
  "regex_match alts [] = list_ex (\<lambda>p. prefix_ci p []) alts"
| "regex_match alts (c # cs) = (list_ex (\<lambda>p. prefix_ci p (c # cs)) alts \<or> regex_match alts cs)"

section \<open>getDevice\<close>

definition getDevice :: "string \<Rightarrow> IGetDevice" where
  "getDevice userAgent =
     (let isAndroid = regex_match [''Android''] userAgent;
          isIos = regex_match [''iPhone'', ''iPad'', ''iPod''] userAgent;
          isOpera = regex_match [''Opera Mini''] userAgent;
          isWindows = regex_match [''IEMobile''] userAgent;
          isSSR = regex_match [''SSR''] userAgent;
          isMobile = (isAndroid \<or> isIos \<or> isOpera \<or> isWindows);
          isDesktop = (\<not> isMobile \<and> \<not> isSSR)
      in \<lparr>isMobile = isMobile, isDesktop = isDesktop, isAndroid = isAndroid,
          isIos = isIos, isSSR = isSSR\<rparr>)"

text \<open>The relations between the flags that the spec states for \<open>DeviceInfo\<close>.\<close>

definition device_wf :: "IGetDevice \<Rightarrow> bool" where
  "device_wf d \<longleftrightarrow>
     isDesktop d = (\<not> isMobile d \<and> \<not> isSSR d) \<and>
     (isAndroid d \<longrightarrow> isMobile d) \<and> (isIos d \<longrightarrow> isMobile d)"

text \<open>
  The contract of the spec for the classifier: each flag is "the user agent contains one of
  the patterns as a substring, ignoring case", with \<open>isMobile\<close> and \<open>isDesktop\<close>
  derived from the others.
\<close>

definition contains_ci :: "string list \<Rightarrow> string \<Rightarrow> bool" where
  "contains_ci pats ua = list_ex (\<lambda>p. sublist (map js_canon p) (map js_canon ua)) pats"

definition classify_spec :: "string \<Rightarrow> IGetDevice" where
  "classify_spec ua =
     (let mobile = contains_ci [''Android'', ''iPhone'', ''iPad'', ''iPod'', ''Opera Mini'', ''IEMobile''] ua;
          ssr = contains_ci [''SSR''] ua
      in \<lparr>isMobile = mobile, isDesktop = (\<not> mobile \<and> \<not> ssr),
          isAndroid = contains_ci [''Android''] ua,
          isIos = contains_ci [''iPhone'', ''iPad'', ''iPod''] ua, isSSR = ssr\<rparr>)"

section \<open>The hook: useIsClient and useDeviceDetect\<close>

datatype host = Server | Browser string

record dd_state =
  device :: "IGetDevice option"
  isClient :: bool
  device_deps :: "bool option"

definition dd_init :: dd_state where
  "dd_init = \<lparr>device = None, isClient = False, device_deps = None\<rparr>"

definition useIsClient_commit :: "bool \<Rightarrow> dd_state \<Rightarrow> dd_state" where
  "useIsClient_commit mounting s = (if mounting then s\<lparr>isClient := True\<rparr> else s)"

definition device_effect :: "string \<Rightarrow> bool \<Rightarrow> dd_state \<Rightarrow> dd_state" where
  "device_effect navigatorUserAgent rendered s =
     (if device_deps s = Some rendered then s
      else s\<lparr>device := Some (getDevice (if rendered then navigatorUserAgent else ''SSR'')),
             device_deps := Some rendered\<rparr>)"

definition useDeviceDetect :: "host \<Rightarrow> dd_state \<Rightarrow> IGetDevice option \<times> dd_state" where
  "useDeviceDetect h s =
     (case h of
        Server \<Rightarrow> (device s, s)
      | Browser ua \<Rightarrow>
          (device s, device_effect ua (isClient s) (useIsClient_commit (device_deps s = None) s)))"

fun dd_renders :: "host \<Rightarrow> nat \<Rightarrow> dd_state \<Rightarrow> IGetDevice option list" where
  "dd_renders h 0 s = []"
| "dd_renders h (Suc n) s = fst (useDeviceDetect h s) # dd_renders h n (snd (useDeviceDetect h s))"

section \<open>Regex search against the substring specification\<close>

lemma prefix_ci_prefix:
  "prefix_ci p s \<longleftrightarrow> prefix (map js_canon p) (map js_canon s)"
  by (induction p s rule: prefix_ci.induct) simp_all

lemma regex_match_sublist_iff:
  "regex_match alts s \<longleftrightarrow> list_ex (\<lambda>p. sublist (map js_canon p) (map js_canon s)) alts"
proof (induction s)
  case Nil
  show ?case by (simp add: prefix_ci_prefix list_ex_iff)
next
  case (Cons c cs)
  have "sublist (map js_canon p) (map js_canon (c # cs)) \<longleftrightarrow>
        prefix_ci p (c # cs) \<or> sublist (map js_canon p) (map js_canon cs)" for p
    by (simp only: list.map(2) sublist_Cons_right prefix_ci_prefix)
  with Cons.IH show ?case by (auto simp: list_ex_iff)
qed

lemma regex_match_canon [simp]:
  "regex_match alts (map js_canon s) = regex_match alts s"
  by (simp add: regex_match_sublist_iff)

lemma regex_match_infix:
  "regex_match alts s \<Longrightarrow> regex_match alts (pre @ s @ post)"
  by (auto simp: regex_match_sublist_iff list_ex_iff intro: sublist_order.order_trans)

lemma regex_match_alternation:
  "regex_match alts s \<longleftrightarrow> list_ex (\<lambda>p. regex_match [p] s) alts"
  by (simp add: regex_match_sublist_iff list_ex_iff)

lemma getDevice_flags:
  "isAndroid (getDevice ua) = regex_match [''Android''] ua"
  "isIos (getDevice ua) = regex_match [''iPhone'', ''iPad'', ''iPod''] ua"
  "isSSR (getDevice ua) = regex_match [''SSR''] ua"
  "isMobile (getDevice ua) =
     (regex_match [''Android''] ua \<or> regex_match [''iPhone'', ''iPad'', ''iPod''] ua \<or>
      regex_match [''Opera Mini''] ua \<or> regex_match [''IEMobile''] ua)"
  "isDesktop (getDevice ua) = (\<not> isMobile (getDevice ua) \<and> \<not> isSSR (getDevice ua))"
  by (simp_all add: getDevice_def Let_def)


text \<open>
  C16. Every classification satisfies the flag relations of the spec's \<open>DeviceInfo\<close>:
  \<open>isDesktop = \<not>isMobile \<and> \<not>isSSR\<close>, and Android or iOS imply mobile.
\<close>

theorem getDevice_wf: "device_wf (getDevice ua)"
  by (simp add: device_wf_def getDevice_def Let_def)

lemma getDevice_wf_witness: "device_wf (getDevice ''Linux; Android 14'')"
  using getDevice_wf [of "''Linux; Android 14''"] by simp

text \<open>
  C17. A user agent containing \<open>SSR\<close> in any case is classified server-rendered and not
  desktop, whatever else it contains.
\<close>

theorem getDevice_SSR:
  assumes "sublist ''SSR'' (map js_canon ua)"
  shows "isSSR (getDevice ua) \<and> \<not> isDesktop (getDevice ua)"
proof -
  have "map js_canon ''SSR'' = ''SSR''" by code_simp
  with assms have "regex_match [''SSR''] ua" by (simp add: regex_match_sublist_iff)
  then show ?thesis by (simp add: getDevice_flags)
qed

lemma getDevice_SSR_witness:
  "sublist ''SSR'' (map js_canon ''ssr; iPhone'') \<and> isSSR (getDevice ''ssr; iPhone'') \<and> \<not> isDesktop (getDevice ''ssr; iPhone'')"
proof -
  have h: "sublist ''SSR'' (map js_canon ''ssr; iPhone'')"
    by code_simp
  show ?thesis using h getDevice_SSR [OF h] by simp
qed

text \<open>
  C18. A user agent matching \<open>/Android/i\<close> and not \<open>/SSR/i\<close> is mobile, Android, not
  desktop and not server-rendered.
\<close>

theorem getDevice_Android:
  assumes "regex_match [''Android''] ua" and "\<not> regex_match [''SSR''] ua"
  shows "isMobile (getDevice ua) \<and> isAndroid (getDevice ua) \<and> \<not> isDesktop (getDevice ua) \<and> \<not> isSSR (getDevice ua)"
  using assms by (simp add: getDevice_flags)

lemma getDevice_Android_witness:
  "isMobile (getDevice ''Linux; Android'') \<and> isAndroid (getDevice ''Linux; Android'') \<and>
   \<not> isDesktop (getDevice ''Linux; Android'') \<and> \<not> isSSR (getDevice ''Linux; Android'')"
proof -
  have h1: "regex_match [''Android''] ''Linux; Android''" by code_simp
  have h2: "\<not> regex_match [''SSR''] ''Linux; Android''" by code_simp
  show ?thesis by (rule getDevice_Android [OF h1 h2])
qed

text \<open>
  C19. A user agent matching none of the patterns yields exactly
  \<open>{isMobile: false, isDesktop: true, isAndroid: false, isIos: false, isSSR: false}\<close>.
\<close>

theorem getDevice_plain:
  assumes "\<not> regex_match [''Android'', ''iPhone'', ''iPad'', ''iPod'', ''Opera Mini'', ''IEMobile'', ''SSR''] ua"
  shows "getDevice ua = \<lparr>isMobile = False, isDesktop = True, isAndroid = False, isIos = False, isSSR = False\<rparr>"
  using assms by (simp add: getDevice_def Let_def regex_match_sublist_iff)

lemma getDevice_plain_witness:
  "\<not> regex_match [''Android'', ''iPhone'', ''iPad'', ''iPod'', ''Opera Mini'', ''IEMobile'', ''SSR'']
       ''X11; Linux'' \<and>
   getDevice ''X11; Linux'' =
     \<lparr>isMobile = False, isDesktop = True, isAndroid = False, isIos = False, isSSR = False\<rparr>"
proof -
  have h: "\<not> regex_match [''Android'', ''iPhone'', ''iPad'', ''iPod'', ''Opera Mini'', ''IEMobile'', ''SSR'']
       ''X11; Linux''"
    by code_simp
  show ?thesis using h getDevice_plain [OF h] by simp
qed

text \<open>
  C20. The classification depends on the user agent only up to the case of its ASCII letters.
\<close>

theorem getDevice_case_insensitive:
  assumes "map js_canon ua = map js_canon ua'"
  shows "getDevice ua = getDevice ua'"
proof -
  have "regex_match alts ua = regex_match alts ua'" for alts
    by (metis assms regex_match_canon)
  then show ?thesis by (simp add: getDevice_def)
qed

lemma getDevice_case_insensitive_witness:
  "getDevice ''ipad'' = getDevice ''IPAD''"
proof -
  have h: "map js_canon ''ipad'' = map js_canon ''IPAD''" by code_simp
  show ?thesis by (rule getDevice_case_insensitive [OF h])
qed

text \<open>
  C21. Refinement: \<open>getDevice\<close>, built on the regular-expression search, computes exactly the
  spec's substring-based classification.
\<close>

theorem getDevice_refines_spec: "getDevice ua = classify_spec ua"
  by (simp add: getDevice_def classify_spec_def contains_ci_def Let_def regex_match_sublist_iff)

text \<open>
  C22. Adding text around a user agent never removes the mobile or server-rendered flag and
  never turns a non-desktop classification into a desktop one.
\<close>

theorem getDevice_infix:
  "(isMobile (getDevice ua) \<longrightarrow> isMobile (getDevice (pre @ ua @ post))) \<and>
   (isSSR (getDevice ua) \<longrightarrow> isSSR (getDevice (pre @ ua @ post))) \<and>
   (isDesktop (getDevice (pre @ ua @ post)) \<longrightarrow> isDesktop (getDevice ua))"
  by (auto simp: getDevice_flags dest: regex_match_infix)

lemma getDevice_infix_witness:
  "isMobile (getDevice ''a iPod b'') \<and> \<not> isDesktop (getDevice ''a iPod b'')"
proof -
  have "isMobile (getDevice ''iPod'')" by code_simp
  with getDevice_infix [of "''iPod''" "''a ''" "'' b''"] show ?thesis
    by (simp add: getDevice_flags(5) [of "''a iPod b''"])
qed

lemma useDeviceDetect_settled:
  assumes "isClient s" and "device_deps s = Some True"
  shows "useDeviceDetect (Browser ua) s = (device s, s)"
  using assms by (simp add: useDeviceDetect_def device_effect_def useIsClient_commit_def)

lemma dd_renders_settled:
  assumes "isClient s" and "device_deps s = Some True"
  shows "dd_renders (Browser ua) n s = replicate n (device s)"
  using assms by (induction n) (simp_all add: useDeviceDetect_settled)

text \<open>
  C23. In a browser, the hook's first render returns the empty object, the second the
  classification of the literal \<open>SSR\<close> (server-rendered, not desktop), and every later
  render the classification of the real user agent.
\<close>

theorem dd_client_renders:
  "dd_renders (Browser ua) (Suc (Suc n)) dd_init =
     None # Some (getDevice ''SSR'') # replicate n (Some (getDevice ua))"
proof -
  let ?s1 = "\<lparr>device = Some (getDevice ''SSR''), isClient = True, device_deps = Some False\<rparr>"
  let ?s2 = "\<lparr>device = Some (getDevice ua), isClient = True, device_deps = Some True\<rparr>"
  have 1: "useDeviceDetect (Browser ua) dd_init = (None, ?s1)"
    by (simp add: useDeviceDetect_def device_effect_def useIsClient_commit_def dd_init_def)
  have 2: "useDeviceDetect (Browser ua) ?s1 = (Some (getDevice ''SSR''), ?s2)"
    by (simp add: useDeviceDetect_def device_effect_def useIsClient_commit_def)
  have "dd_renders (Browser ua) n ?s2 = replicate n (Some (getDevice ua))"
    by (simp add: dd_renders_settled)
  with 1 2 show ?thesis by simp
qed

text \<open>
  C24. During server rendering effects never run, so every render returns the empty object;
  the \<open>SSR\<close> classification is never produced on the server.
\<close>

theorem dd_server_renders: "dd_renders Server n dd_init = replicate n None"
  by (induction n) (simp_all add: useDeviceDetect_def dd_init_def)

end
