(* ===== verification/Toggle.thy ===== *)
theory Toggle
  imports ReactHooks
begin

text \<open>
  Model of \<open>src/useToggle.ts\<close>: a \<open>useState\<close> cell holding the flag and a \<open>useCallback\<close>
  cell with empty dependencies holding the \<open>toggle\<close> closure. A closure is identified by
  the number of the render that created it. Calling \<open>toggle\<close> enqueues the functional
  update \<open>oldState => !oldState\<close>; the next render folds the queue. Events are a render of
  the owning component (with whatever \<open>initialState\<close> it passes) and a call of
  \<open>toggle\<close>, possibly several between two renders (batched updates). The runs are
  compared with the reference semantics \<open>toggle_ref\<close>, in which each call flips the flag
  at once; \<open>toggle_unmount\<close> models React discarding the cells at unmount.
\<close>

record toggle_sys =
  toggle_cell :: "bool state_cell option"
  toggle_memo :: "(nat, unit) callback_cell option"
  render_count :: nat

definition toggle_init :: toggle_sys where
  "toggle_init = \<lparr>toggle_cell = None, toggle_memo = None, render_count = 0\<rparr>"

text \<open>One render of \<open>useToggle(initialState)\<close>, returning \<open>[state, toggle]\<close>.\<close>

definition useToggle :: "bool \<Rightarrow> toggle_sys \<Rightarrow> (bool \<times> nat) \<times> toggle_sys" where
  "useToggle initialState s =
     (let (state, cell) = useState initialState (toggle_cell s);
          (toggle, memo) = useCallback (render_count s) [] (toggle_memo s)
      in ((state, toggle),
          s\<lparr>toggle_cell := Some cell, toggle_memo := Some memo, render_count := Suc (render_count s)\<rparr>))"

text \<open>The body of the \<open>toggle\<close> closure: \<open>setState(oldState => !oldState)\<close>.\<close>

definition toggle :: "toggle_sys \<Rightarrow> toggle_sys" where
  "toggle s = s\<lparr>toggle_cell := map_option (setState (Updater Not)) (toggle_cell s)\<rparr>"

datatype toggle_event = ToggleRender bool | ToggleCall

fun toggle_run :: "toggle_event list \<Rightarrow> toggle_sys \<Rightarrow> (bool \<times> nat) list \<times> toggle_sys" where
  "toggle_run [] s = ([], s)"
| "toggle_run (ToggleRender b # es) s =
     (let r = useToggle b s; rest = toggle_run es (snd r) in (fst r # fst rest, snd rest))"
| "toggle_run (ToggleCall # es) s = toggle_run es (toggle s)"

text \<open>The value the next render will show.\<close>

definition toggle_view :: "toggle_sys \<Rightarrow> bool option" where
  "toggle_view s = map_option (\<lambda>c. foldl apply_action (current c) (queue c)) (toggle_cell s)"

text \<open>
  The reference semantics a reader of \<open>useToggle\<close> has in mind: each call of \<open>toggle\<close>
  flips the flag at once, and each render shows the flag (the mounting render shows its
  \<open>initialState\<close>). \<open>None\<close> is "not mounted yet".
\<close>

fun toggle_ref :: "bool option \<Rightarrow> toggle_event list \<Rightarrow> bool list" where
  "toggle_ref v [] = []"
| "toggle_ref v (ToggleRender b # es) =
     (let x = case_option b id v in x # toggle_ref (Some x) es)"
| "toggle_ref v (ToggleCall # es) = toggle_ref (map_option Not v) es"

text \<open>
  Unmounting the component discards its hook cells; the render counter, which names closures,
  goes on. A \<open>toggle\<close> closure kept after the unmount still calls \<open>setState\<close>, which
  React ignores for an unmounted component.
\<close>

definition toggle_unmount :: "toggle_sys \<Rightarrow> toggle_sys" where
  "toggle_unmount s = s\<lparr>toggle_cell := None, toggle_memo := None\<rparr>"

section \<open>Lemmas\<close>

lemma toggle_run_render [simp]:
  "fst (toggle_run (ToggleRender b # es) s) = fst (useToggle b s) # fst (toggle_run es (snd (useToggle b s)))"
  "snd (toggle_run (ToggleRender b # es) s) = snd (toggle_run es (snd (useToggle b s)))"
  by (simp_all add: Let_def)

lemma toggle_view_toggle:
  "toggle_view (toggle s) = map_option Not (toggle_view s)"
  by (cases "toggle_cell s") (simp_all add: toggle_view_def toggle_def setState_def)

lemma toggle_view_useToggle:
  "toggle_cell s \<noteq> None \<Longrightarrow> toggle_view (snd (useToggle b s)) = toggle_view s"
  by (auto simp: toggle_view_def useToggle_def useState_def Let_def split: prod.splits)

lemma useToggle_value:
  "toggle_cell s = Some c \<Longrightarrow> fst (fst (useToggle b s)) = the (toggle_view s)"
  by (simp add: useToggle_def toggle_view_def split: prod.splits)

lemma toggle_run_view:
  assumes "toggle_cell s \<noteq> None"
  shows "toggle_cell (snd (toggle_run es s)) \<noteq> None \<and>
         toggle_view (snd (toggle_run es s)) =
           map_option (\<lambda>v. if even (count_list es ToggleCall) then v else \<not> v) (toggle_view s)"
  using assms
proof (induction es s rule: toggle_run.induct)
  case (1 s)
  then show ?case by (cases "toggle_view s") simp_all
next
  case (2 b es s)
  have c: "toggle_cell (snd (useToggle b s)) \<noteq> None"
    by (simp add: useToggle_def split: prod.splits)
  from "2.IH" [OF refl c] "2.prems" show ?case
    by (simp add: toggle_view_useToggle del: toggle_run.simps)
next
  case (3 es s)
  have "toggle_cell (toggle s) \<noteq> None" using "3.prems" by (simp add: toggle_def)
  with "3.IH" show ?case
    by (cases "toggle_view s") (simp_all add: toggle_view_toggle)
qed

lemma toggle_run_identity:
  assumes "toggle_memo s = Some \<lparr>memo_cb = k, memo_deps = []\<rparr>"
  shows "list_all (\<lambda>out. snd out = k) (fst (toggle_run es s)) \<and>
         toggle_memo (snd (toggle_run es s)) = Some \<lparr>memo_cb = k, memo_deps = []\<rparr>"
  using assms
proof (induction es s rule: toggle_run.induct)
  case (1 s)
  then show ?case by simp
next
  case (2 b es s)
  have "toggle_memo (snd (useToggle b s)) = Some \<lparr>memo_cb = k, memo_deps = []\<rparr>"
    and "snd (fst (useToggle b s)) = k"
    using "2.prems" by (simp_all add: useToggle_def useCallback_def split: prod.splits)
  with "2.IH" [OF refl] show ?case by (simp del: toggle_run.simps)
next
  case (3 es s)
  then show ?case by (simp add: toggle_def)
qed

lemma useToggle_shows:
  "fst (fst (useToggle b s)) = case_option b id (toggle_view s) \<and>
   toggle_view (snd (useToggle b s)) = Some (case_option b id (toggle_view s))"
  by (cases "toggle_cell s") (simp_all add: useToggle_def useState_def toggle_view_def Let_def split: prod.splits)

lemma toggle_run_ref:
  "map fst (fst (toggle_run es s)) = toggle_ref (toggle_view s) es"
proof (induction es s rule: toggle_run.induct)
  case (1 s)
  then show ?case by simp
next
  case (2 b es s)
  then show ?case using useToggle_shows [of b s] by (simp add: Let_def del: toggle_run.simps)
next
  case (3 es s)
  then show ?case by (simp add: toggle_view_toggle)
qed

lemma toggle_unmounted:
  "toggle_cell s = None \<Longrightarrow> toggle s = s"
  by (cases s) (simp add: toggle_def)

lemma toggle_run_unmounted_calls:
  "toggle_cell s = None \<Longrightarrow> toggle_run (replicate n ToggleCall @ es) s = toggle_run es s"
  by (induction n) (simp_all add: toggle_unmounted)

section \<open>Properties\<close>

text \<open>
  C25. After the mount with \<open>initialState = b\<close>, any sequence of calls of \<open>toggle\<close> and
  re-renders (with any \<open>initialState\<close>) leaves the flag at \<open>b\<close> after an even number of
  calls and at \<open>\<not>b\<close> after an odd number, also when several calls fall between two renders;
  the next render returns that value.
\<close>

theorem useToggle_parity:
  "toggle_view (snd (toggle_run (ToggleRender b # es) toggle_init)) =
     Some (if even (count_list es ToggleCall) then b else \<not> b) \<and>
   fst (fst (useToggle b' (snd (toggle_run (ToggleRender b # es) toggle_init)))) =
     (if even (count_list es ToggleCall) then b else \<not> b)"
proof -
  let ?s1 = "snd (useToggle b toggle_init)"
  let ?s = "snd (toggle_run (ToggleRender b # es) toggle_init)"
  have "toggle_cell ?s1 \<noteq> None" and "toggle_view ?s1 = Some b"
    by (simp_all add: useToggle_def toggle_init_def useState_def toggle_view_def)
  with toggle_run_view [of ?s1 es]
  have c: "toggle_cell ?s \<noteq> None"
    and v: "toggle_view ?s = Some (if even (count_list es ToggleCall) then b else \<not> b)"
    by (simp_all del: toggle_run.simps)
  from c obtain cell where "toggle_cell ?s = Some cell" by blast
  then have "fst (fst (useToggle b' ?s)) = the (toggle_view ?s)" by (rule useToggle_value)
  with v show ?thesis by simp
qed

text \<open>
  C26. Every render returns the same \<open>toggle\<close> function, the one created by the mounting
  render, and the mounting render returns the initial state.
\<close>

theorem useToggle_stable_identity:
  "fst (toggle_run (ToggleRender b # es) toggle_init) =
     (b, 0) # fst (toggle_run es (snd (useToggle b toggle_init))) \<and>
   list_all (\<lambda>out. snd out = 0) (fst (toggle_run (ToggleRender b # es) toggle_init))"
proof -
  have "toggle_memo (snd (useToggle b toggle_init)) = Some \<lparr>memo_cb = 0, memo_deps = []\<rparr>"
    and "fst (useToggle b toggle_init) = (b, 0)"
    by (simp_all add: useToggle_def toggle_init_def useState_def)
  with toggle_run_identity [of "snd (useToggle b toggle_init)" 0 es] show ?thesis
    by (simp del: toggle_run.simps)
qed

text \<open>
  C27. The queued implementation agrees with the reference semantics: on every sequence of
  renders and calls from before the mount, the values the renders of \<open>useToggle\<close> return
  are those of the flag flipped at once by each call.
\<close>

theorem useToggle_refines_ref:
  "map fst (fst (toggle_run es toggle_init)) = toggle_ref None es"
  using toggle_run_ref [of es toggle_init] by (simp add: toggle_view_def toggle_init_def)

text \<open>
  Calls of a \<open>toggle\<close> kept after the component unmounted are ignored: the next mount
  returns its own \<open>initialState\<close> and a new \<open>toggle\<close> function, whatever was toggled
  before and after the unmount.
\<close>

lemma toggle_after_unmount:
  "fst (toggle_run (replicate n ToggleCall @ [ToggleRender b]) (toggle_unmount s)) = [(b, render_count s)]"
proof -
  have "toggle_cell (toggle_unmount s) = None" by (simp add: toggle_unmount_def)
  then have "toggle_run (replicate n ToggleCall @ [ToggleRender b]) (toggle_unmount s) =
             toggle_run [ToggleRender b] (toggle_unmount s)"
    by (rule toggle_run_unmounted_calls)
  then show ?thesis by (simp add: useToggle_def toggle_unmount_def useState_def)
qed

end
