(* ===== verification/Spec2Isabelle.thy ===== *)
theory Spec2Isabelle
  imports Debounce MultiDebounce MultiLiveness ReactCommit DeviceDetect Toggle
begin

text \<open>
  \<^bold>\<open>A verification library for react-tiny-hooks.\<close>

  The repository has three independent React hooks under \<open>src/src/\<close>:
  \<^item> \<open>useDebounce(effect, delay, deps)\<close> (\<open>useDebounce.ts\<close>) memoises \<open>effect\<close> with
    \<open>useCallback(effect, deps)\<close> and, in a \<open>useEffect\<close> keyed on \<open>[callback, delay]\<close>,
    schedules \<open>callback()\<close> with \<open>setTimeout\<close>; the effect's cleanup clears that timer.
  \<^item> \<open>useDeviceDetect()\<close> (\<open>useDeviceDetect.ts\<close>) classifies a user-agent string with the
    pure \<open>getDevice\<close> (five case-insensitive regular expressions) inside an effect keyed on
    \<open>isClient\<close>, which the hook \<open>useIsClient\<close> (imported from \<open>./useIsClient\<close>, a file
    not present in the repository) turns true after mount; before that the literal
    \<open>'SSR'\<close> is classified.
  \<^item> \<open>useToggle(initialState)\<close> (\<open>useToggle.ts\<close>) holds a boolean in \<open>useState\<close> and
    returns a \<open>toggle\<close> memoised with empty dependencies that enqueues
    \<open>oldState => !oldState\<close>.
  They share no state; they interact only through the React runtime that renders them and
  the host's timers.

  \<^bold>\<open>Theories.\<close>
  \<^item> \<open>Prelude\<close>: the JavaScript values of dependency arrays (\<open>jsval\<close>, compared by
    \<open>Object.is\<close> = HOL equality), ECMAScript \<open>ToInt32\<close> as \<open>sint\<close> of a \<open>32 word\<close>
    (\<open>to_int32\<close>, with its range, identity and periodicity), the case canonicalisation
    \<open>js_canon\<close> of the regex \<open>i\<close> flag, and list lemmas the components share.
  \<^item> \<open>Timers\<close>: the host timer facility (a record of the clock, the next handle and the
    pending timers): \<open>setTimeout\<close> (delay through \<open>timeout_of\<close>: \<open>ToInt32\<close> then clamped
    at 0, as the HTML timer steps do), \<open>clearTimeout\<close>, \<open>advance\<close> (one millisecond) and
    \<open>run_next\<close> (the event loop runs the earliest due timer and takes it off the list).
    Lemmas (facts of the host, used by the component proofs): well-formedness of handles is
    kept by every operation, clear undoes set, clear and set commute on other handles, the
    bounds and wrap-around of the timeout.
  \<^item> \<open>ReactHooks\<close>: the runtime's \<open>areHookInputsEqual\<close> (common-prefix comparison),
    \<open>useCallback\<close>, the re-run test of \<open>useEffect\<close> (\<open>effect_fires\<close>) and the
    \<open>useState\<close> update queue. These are React's, modelled from its documented behaviour.
    \<open>areHookInputsEqual xs ys\<close> holds exactly when one list is a prefix of the other.
  \<^item> \<open>Debounce\<close>: one render of \<open>useDebounce\<close> on the hook's cells and the host's timers
    (\<open>useDebounce_cell\<close>: \<open>useCallback\<close>, then the effect, which runs the previous run's
    cleanup \<open>debounce_cleanup\<close> before \<open>setTimeout\<close>), the hook in a one-component page
    (\<open>useDebounce\<close>, \<open>debounce_unmount\<close>, \<open>debounce_run_timer\<close> for the timer
    callback), the step function \<open>debounce_step\<close> over events
    \<open>Render | Unmount | Tick | RunTimer\<close>, its runs \<open>debounce_run\<close>, the inductive
    reachability \<open>debounce_reach\<close>, and the event loop draining the tasks due at one instant,
    \<open>debounce_settle\<close> (a \<open>while_option\<close>). The invariant \<open>debounce_inv\<close> (every
    pending timer is the current effect's, carrying the memoised callback; nothing pending when
    unmounted) holds in every reachable state (C1); hence at most one timer (C2), no call after
    unmount (C3), the debounce theorem for bursts of re-registrations (C4),
    cancel-before-reschedule (C5), the stale-callback behaviour of unchanged dependencies (C6),
    no call before a full timeout after a re-registration (C7), exactly one call when due (C8);
    a delay that is non-positive, or that \<open>ToInt32\<close> wraps to a negative number, fires
    without time passing (C15). The drain always stops (the measure is the number of pending
    timers), leaves nothing due, and is one timer task on invariant states.
    \<open>debounce_run_obs\<close> shows that what can be observed
    of the model (\<open>debounce_obs\<close>: the state without handle names, and the calls) does not
    depend on the names of handles.
  \<^item> \<open>MultiDebounce\<close>: several components each using \<open>useDebounce\<close>, their cells a
    function from component number to cells (as per-thread state beside shared state), the
    host's timers and the call log shared, and each component's own calls recorded; every
    state change is \<open>useDebounce_cell\<close>, \<open>debounce_cleanup\<close> or a timer run. Invariant
    \<open>multi_inv\<close>: no handle owned by two components, every pending timer owned. Each
    component, projected (\<open>multi_proj\<close>), is simulated step by step by the single-component
    model on the events it sees (\<open>local_events\<close>), hence on whole runs up to handle names,
    calls included (C9); renders and unmounts of one component never touch another's cells or
    timer (C10); one timer per component and none without a mounted owner (C11).
  \<^item> \<open>MultiLiveness\<close>: progress and accounting of the shared event loop. Once time has
    passed every pending deadline, one run of the event loop per pending timer empties the
    host's list; on every run of the page the calls it adds are exactly the memoised actions of
    the components' own timers, and each component is credited its own (C13; the proof is an
    induction on the number of pending timers, which each run decreases). The page's log is,
    as a multiset, the sum of the components' logs, and each component's log is a subsequence
    of it (C14).
  \<^item> \<open>ReactCommit\<close>: React's commit of a render pass (\<open>react_commit\<close>: the render phase
    \<open>render_plan\<close>, then the cleanups \<open>commit_destroy\<close> of all re-running effects, then
    their setups \<open>commit_create\<close>) gives the page the per-component steps give (C12).
  \<^item> \<open>DeviceDetect\<close>: \<open>IGetDevice\<close> as a record, the regex search \<open>regex_match\<close> over
    \<open>prefix_ci\<close>, \<open>getDevice\<close>, the spec's abstract \<open>classify_spec\<close> and the refinement
    \<open>getDevice = classify_spec\<close> (C21), the spec's testable properties (C16--C20, C22),
    and the hook lifecycle \<open>useDeviceDetect\<close> over render/commit cycles in a browser (C23)
    and on the server (C24); \<open>useIsClient_commit\<close> is modelled from the spec.
  \<^item> \<open>Toggle\<close>: \<open>useToggle\<close>, \<open>toggle\<close> and runs of renders and calls: parity (C25),
    the stable identity of \<open>toggle\<close> (C26), agreement with the reference semantics
    \<open>toggle_ref\<close> in which each call flips at once (C27), and the unmount
    \<open>toggle_unmount\<close> (React discarding the cells), after which stale calls are ignored.
  \<^item> This theory: the header. The hooks share no state, so the properties that span
    components are those of several \<open>useDebounce\<close> components on one timer host
    (\<open>MultiDebounce\<close>, \<open>MultiLiveness\<close>, \<open>ReactCommit\<close>).

  \<^bold>\<open>Modelling choices.\<close> Render, commit and the flush of passive effects of one render
  are one step; React runs all cleanups of a commit before its setups, which for the single
  effect of \<open>useDebounce\<close> is cleanup-then-setup. Time is whole milliseconds and advances by
  explicit \<open>Tick\<close> events; \<open>RunTimer\<close> events may come at any time, so a render may
  happen after a timer is due but before it runs. Numbers in dependency arrays and delays are
  integral (\<open>NaN\<close>, \<open>-0\<close> and fractions are not modelled). Strings are HOL \<open>char\<close>
  lists (8-bit); the case folding of non-ASCII letters is not modelled and cannot affect the
  ASCII patterns. Every loop of the model is structural recursion on an event list or a
  string, except the event loop's drain \<open>debounce_settle\<close>, which is a
  \<open>while_option\<close> (\<open>None\<close> if it never stops); it is proved to return \<open>Some\<close> on every
  state by the measure "number of pending timers", which each task decreases. No fuel is used.

  \<^bold>\<open>Plan.\<close> Modelled, in order of importance: the debounce (timers, cancel before
  reschedule, disposal, the event loop, boundary delays, the dependency comparison), several
  debounce components on one timer host, their progress and the accounting of their calls, and
  React's commit order over them, the classifier and its refinement, the device hook's
  lifecycle, the toggle and its reference semantics. Every line of the three source files that
  does something is mapped to a definition. Nothing more of the program can be modelled
  faithfully from this repository: what remains is import and export lines, and the host's
  side listed below.

  \<^bold>\<open>Not modelled.\<close> Rendering output, the React reconciler beyond the hook cells, Strict
  Mode double invocation, the 4 ms clamp for nested timers (the sources never schedule from a
  timer callback), Node's timer semantics (which turn delays above \<open>2^31 - 1\<close> into 1 ms
  and delays below 1 into 1 ms), the implementation of \<open>useIsClient\<close> (not in the
  repository), and the module import/export lines. The default value of \<open>useToggle\<close>'s
  parameter is not a separate definition: \<open>useToggle()\<close> is \<open>useToggle False\<close>.
\<close>

end
